theory Spec2Isabelle
  imports Main
begin

section \<open>Configuration read from the process environment\<close>

text \<open>
  The modules read five environment variables at load time. A variable that is not set
  is \<open>undefined\<close> in the source and \<open>None\<close> here.
\<close>

record env =
  env_NEXT_PUBLIC_OUR_AUTH_TOKEN :: "string option"
  env_R2_PUBLIC_BASE_URL :: "string option"
  env_NEXT_PUBLIC_MAX_IMAGE_SIZE_KB :: "string option"
  env_MAX_IMAGE_SIZE_KB :: "string option"
  env_MAX_IMAGES :: "string option"

text \<open>\<open>process.env.X || d\<close>: the default is taken when the variable is unset or empty.\<close>

definition env_or :: "string option \<Rightarrow> string \<Rightarrow> string" where
  "env_or v d = (case v of None \<Rightarrow> d | Some s \<Rightarrow> if s = [] then d else s)"

text \<open>A value interpolated into a template literal; \<open>undefined\<close> prints as that word.\<close>

definition interpolate :: "string option \<Rightarrow> string" where
  "interpolate v = (case v of None \<Rightarrow> ''undefined'' | Some s \<Rightarrow> s)"

text \<open>JavaScript truthiness of an optional string: defined and not empty.\<close>

definition truthy :: "string option \<Rightarrow> bool" where
  "truthy v = (case v of None \<Rightarrow> False | Some s \<Rightarrow> s \<noteq> [])"

subsection \<open>parseInt\<close>

text \<open>
  \<open>parseInt(s)\<close> with no radix: leading white space is skipped, a sign is read, a
  \<open>0x\<close> prefix selects base 16, and the longest prefix of digits is the value; with no
  digit the result is \<open>NaN\<close>, which is \<open>None\<close> here. White space is the ASCII part of
  the language's white space, and the value is the exact integer (a double holds it
  exactly below \<open>2^53\<close>).
\<close>

definition is_ws :: "char \<Rightarrow> bool" where
  "is_ws c = (c = CHR '' '' \<or> c = CHR 0x09 \<or> c = CHR 0x0A \<or> c = CHR 0x0B
    \<or> c = CHR 0x0C \<or> c = CHR 0x0D)"

definition digit_val :: "char \<Rightarrow> nat option" where
  "digit_val c =
     (let n = (of_char c :: nat) in
      if 48 \<le> n \<and> n \<le> 57 then Some (n - 48)
      else if 97 \<le> n \<and> n \<le> 122 then Some (n - 87)
      else if 65 \<le> n \<and> n \<le> 90 then Some (n - 55)
      else None)"

definition is_digit :: "nat \<Rightarrow> char \<Rightarrow> bool" where
  "is_digit R c = (case digit_val c of None \<Rightarrow> False | Some d \<Rightarrow> d < R)"

definition digits_value :: "nat \<Rightarrow> string \<Rightarrow> nat" where
  "digits_value R Z = foldl (\<lambda>a c. a * R + (case digit_val c of None \<Rightarrow> 0 | Some d \<Rightarrow> d)) 0 Z"

definition parseInt :: "string \<Rightarrow> int option" where
  "parseInt s =
     (let s1 = dropWhile is_ws s;
          neg = (take 1 s1 = ''-'');
          s2 = (if take 1 s1 = ''-'' \<or> take 1 s1 = ''+'' then drop 1 s1 else s1);
          hex = (take 2 s2 = ''0x'' \<or> take 2 s2 = ''0X'');
          R = (if hex then 16 else 10);
          s3 = (if hex then drop 2 s2 else s2);
          Z = takeWhile (is_digit R) s3
      in if Z = [] then None
         else Some ((if neg then - 1 else 1) * int (digits_value R Z)))"

section \<open>The uuid type of the database\<close>

text \<open>
  The columns \<open>id\<close> and \<open>user_id\<close> have the type \<open>uuid\<close>. A statement parameter that
  is compared with them, or inserted into them, is text that the database reads with the
  input routine of that type: an optional opening brace, eight groups of four hexadecimal
  digits in either case, an optional hyphen after each group but the last, the closing
  brace if there was an opening one, and nothing more. Text of another form makes the
  statement fail. A value is printed, and comes back in a returned row, in one form: the
  digits in lower case, grouped 8-4-4-4-12. \<open>uuid_in\<close> gives that form of a parameter,
  or \<open>None\<close> where the statement fails.
\<close>

definition to_lower :: "char \<Rightarrow> char" where
  "to_lower c =
     (let n = (of_char c :: nat) in if 65 \<le> n \<and> n \<le> 90 then char_of (n + 32) else c)"

fun uuid_groups :: "nat \<Rightarrow> string \<Rightarrow> (string \<times> string) option" where
  "uuid_groups 0 src = Some ([], src)"
| "uuid_groups (Suc n) (a # b # c # d # rest) =
     (if is_digit 16 a \<and> is_digit 16 b \<and> is_digit 16 c \<and> is_digit 16 d
      then map_option (\<lambda>(ds, r). (to_lower a # to_lower b # to_lower c # to_lower d # ds, r))
             (uuid_groups n (if n \<noteq> 0 \<and> take 1 rest = ''-'' then drop 1 rest else rest))
      else None)"
| "uuid_groups (Suc n) src = None"

definition uuid_out :: "string \<Rightarrow> string" where
  "uuid_out ds = take 8 ds @ ''-'' @ take 4 (drop 8 ds) @ ''-'' @ take 4 (drop 12 ds) @ ''-''
                   @ take 4 (drop 16 ds) @ ''-'' @ drop 20 ds"

definition uuid_in :: "string \<Rightarrow> string option" where
  "uuid_in s =
     (let braces = (take 1 s = ''{'');
          src = (if braces then drop 1 s else s)
      in case uuid_groups 8 src of
           None \<Rightarrow> None
         | Some (ds, rest) \<Rightarrow>
             if rest = (if braces then ''}'' else []) then Some (uuid_out ds) else None)"

text \<open>The parameters of an \<open>IN\<close> list: the statement fails when one of them does.\<close>

definition uuid_params :: "string list \<Rightarrow> string list option" where
  "uuid_params ids = those (map uuid_in ids)"

section \<open>The images table\<close>

datatype status = pending | completed | failed | canceled | deleted

text \<open>
  A row of the table \<open>images\<close>, as a statement returns it. The column \<open>id\<close> is
  \<open>id_col\<close> here (\<open>id\<close> is the identity function of HOL); \<open>id_col\<close> and \<open>userId\<close> hold
  the printed form of their uuid. Timestamps are milliseconds since the epoch.
\<close>

record image =
  id_col :: string
  userId :: string
  objectKey :: string
  fileUrl :: string
  mimeType :: string
  sizeBytes :: int
  status :: status
  createdAt :: int
  completedAt :: "int option"

record NewImage =
  new_userId :: string
  new_objectKey :: string
  new_fileUrl :: string
  new_mimeType :: string
  new_sizeBytes :: int
  new_status :: status

text \<open>
  What the handlers do not decide themselves: the clock, the identifiers the database
  generates (in printed form), whether the database accepts an insert statement whose
  parameters it could read, and the object storage (its signer and its batch delete). A
  call that throws returns \<open>None\<close>.
\<close>

record s3_error =
  err_Key :: "string option"
  err_Code :: "string option"
  err_Message :: "string option"

record DeleteObjectsOutput =
  Errors :: "s3_error list option"

record world =
  clock :: "nat \<Rightarrow> int"
  gen_random_uuid :: "nat \<Rightarrow> string"
  insert_accepted :: "NewImage list \<Rightarrow> bool"
  s3_getSignedUrl :: "string \<Rightarrow> string \<Rightarrow> int \<Rightarrow> nat \<Rightarrow> string option"
  s3_DeleteObjects :: "string list \<Rightarrow> DeleteObjectsOutput option"

section \<open>Capability check\<close>

record auth_result =
  authenticated :: bool
  auth_userId :: "string option"

definition OUR_AUTH_TOKEN :: "env \<Rightarrow> string option" where
  "OUR_AUTH_TOKEN e = env_NEXT_PUBLIC_OUR_AUTH_TOKEN e"

definition authCheck :: "env \<Rightarrow> string option \<Rightarrow> auth_result" where
  "authCheck e authHeader =
     (if \<not> truthy authHeader
         \<or> authHeader \<noteq> Some (''Bearer '' @ interpolate (OUR_AUTH_TOKEN e))
      then \<lparr>authenticated = False, auth_userId = None\<rparr>
      else \<lparr>authenticated = True, auth_userId = OUR_AUTH_TOKEN e\<rparr>)"

section \<open>Record store operations\<close>

text \<open>
  The table is the list of its rows, in the order the statements scan and return them.
  An \<open>UPDATE ... RETURNING\<close> statement gives back the rows it changed, as they are after
  the change, and the new table; a \<open>WHERE\<close> clause is the filter \<open>hit\<close>, which compares
  uuid values. Each function issues one statement. A statement with a parameter that is
  no UUID throws and leaves the table as it was, and so does an insert that the database
  refuses for another reason (a value out of range, a constraint); \<open>None\<close> is that
  outcome. Otherwise the database is taken to run the statement.
\<close>

definition createImageRecordsBatch ::
  "world \<Rightarrow> int \<Rightarrow> image list \<Rightarrow> NewImage list \<Rightarrow> (image list \<times> image list) option" where
  "createImageRecordsBatch w now db imageData =
     (let newImages = map (\<lambda>d. \<lparr>new_userId = new_userId d, new_objectKey = new_objectKey d,
              new_fileUrl = new_fileUrl d, new_mimeType = new_mimeType d,
              new_sizeBytes = new_sizeBytes d, new_status = pending\<rparr>) imageData
      in case uuid_params (map new_userId newImages) of
           None \<Rightarrow> None
         | Some owners \<Rightarrow>
             if \<not> insert_accepted w newImages then None
             else
               let createdImages = map (\<lambda>(j, n, owner).
                     \<lparr>id_col = gen_random_uuid w (length db + j), userId = owner,
                      objectKey = new_objectKey n, fileUrl = new_fileUrl n,
                      mimeType = new_mimeType n, sizeBytes = new_sizeBytes n,
                      status = new_status n, createdAt = now, completedAt = None\<rparr>)
                     (enumerate 0 (zip newImages owners))
               in Some (createdImages, db @ createdImages))"

datatype confirm_status = confirm_completed | confirm_failed

fun to_status :: "confirm_status \<Rightarrow> status" where
  "to_status confirm_completed = completed"
| "to_status confirm_failed = failed"

definition updateImageStatusBatch ::
  "int \<Rightarrow> image list \<Rightarrow> string list \<Rightarrow> confirm_status \<Rightarrow> string
     \<Rightarrow> (image list \<times> image list) option" where
  "updateImageStatusBatch now db imageIds st uid =
     (case (uuid_params imageIds, uuid_in uid) of
        (Some ids, Some owner) \<Rightarrow>
          let hit = (\<lambda>r. id_col r \<in> set ids \<and> userId r = owner);
              upd = (\<lambda>r. r\<lparr>status := to_status st, completedAt := Some now\<rparr>)
          in Some (map upd (filter hit db), map (\<lambda>r. if hit r then upd r else r) db)
      | _ \<Rightarrow> None)"

record key_row =
  key_id :: string
  key_objectKey :: string

definition getImageObjectKeysByUserAndIds ::
  "image list \<Rightarrow> string \<Rightarrow> string list \<Rightarrow> key_row list option" where
  "getImageObjectKeysByUserAndIds db uid imageIds =
     (case (uuid_in uid, uuid_params imageIds) of
        (Some owner, Some ids) \<Rightarrow>
          Some (map (\<lambda>r. \<lparr>key_id = id_col r, key_objectKey = objectKey r\<rparr>)
                  (filter (\<lambda>r. userId r = owner \<and> id_col r \<in> set ids \<and> status r = completed) db))
      | _ \<Rightarrow> None)"

definition markImagesAsDeleted ::
  "int \<Rightarrow> image list \<Rightarrow> string list \<Rightarrow> string \<Rightarrow> (image list \<times> image list) option" where
  "markImagesAsDeleted now db imageIds uid =
     (case (uuid_params imageIds, uuid_in uid) of
        (Some ids, Some owner) \<Rightarrow>
          let hit = (\<lambda>r. id_col r \<in> set ids \<and> userId r = owner \<and> status r = completed);
              upd = (\<lambda>r. r\<lparr>status := deleted, completedAt := Some now\<rparr>)
          in Some (map upd (filter hit db), map (\<lambda>r. if hit r then upd r else r) db)
      | _ \<Rightarrow> None)"

section \<open>Requests and responses\<close>

text \<open>
  A request carries its authorization header and its body. \<open>NotJson\<close> is a body that
  \<open>request.json()\<close> cannot parse (it throws); \<open>IllTyped\<close> is JSON of another shape than
  the schema's, which the schema rejects; \<open>Typed\<close> is JSON of the schema's shape, whose
  values the schema still has to check.
\<close>

datatype 'a json_body = NotJson | IllTyped | Typed 'a

record 'a request =
  authorization :: "string option"
  body :: "'a json_body"

text \<open>The JSON of a response: the error shapes the handlers share, or the success payload.\<close>

datatype 'ok reply =
    Error string
  | InvalidRequest string
  | MissingImages string "string list"
  | StorageErrors string "s3_error list"
  | Ok 'ok

record 'ok response =
  http_status :: nat
  json :: "'ok reply"

section \<open>Request schemas\<close>

definition MAX_IMAGE_SIZE_BYTES :: "env \<Rightarrow> int option" where
  "MAX_IMAGE_SIZE_BYTES e =
     map_option (\<lambda>n. n * 1024) (parseInt (env_or (env_MAX_IMAGE_SIZE_KB e) ''1024''))"

definition MAX_IMAGES :: "env \<Rightarrow> int option" where
  "MAX_IMAGES e = parseInt (env_or (env_MAX_IMAGES e) ''5'')"

text \<open>
  The schema's upper bounds reject a value that is greater than the bound; no value is
  greater than \<open>NaN\<close>, so an unparsable bound rejects nothing.
\<close>

definition too_big :: "int \<Rightarrow> int option \<Rightarrow> bool" where
  "too_big x bound = (case bound of None \<Rightarrow> False | Some m \<Rightarrow> x > m)"

text \<open>
  The UUID test of the schema library (\<open>z.string().uuid()\<close>), as its pattern reads: 8, 4,
  4, 4 and 12 hexadecimal digits in either case, separated by hyphens. The library is not
  part of the repository; the identifiers of the sample deployment below are version 4
  UUIDs, which stricter variants of the pattern accept as well.
\<close>

definition is_uuid :: "string \<Rightarrow> bool" where
  "is_uuid s =
     (length s = 36 \<and>
      list_all (\<lambda>(i, c). if i = 8 \<or> i = 13 \<or> i = 18 \<or> i = 23 then c = CHR ''-''
                          else is_digit 16 c) (enumerate (0::nat) s))"

text \<open>An item of a presign request; \<open>fileSize\<close> is a whole number of bytes.\<close>

record SingleImageRequest =
  fileId :: string
  fileType :: string
  fileSize :: int

definition singleImageSchema :: "env \<Rightarrow> SingleImageRequest \<Rightarrow> bool" where
  "singleImageSchema e img =
     (is_uuid (fileId img) \<and> length (fileType img) \<ge> 1
      \<and> fileSize img > 0 \<and> \<not> too_big (fileSize img) (MAX_IMAGE_SIZE_BYTES e))"

definition presignRequestSchema :: "env \<Rightarrow> SingleImageRequest list \<Rightarrow> bool" where
  "presignRequestSchema e images =
     (list_all (singleImageSchema e) images \<and> length images \<ge> 1
      \<and> \<not> too_big (int (length images)) (MAX_IMAGES e))"

record ImageUpdate =
  imageId :: string
  upd_status :: confirm_status

definition confirmUploadSchema :: "env \<Rightarrow> ImageUpdate list \<Rightarrow> bool" where
  "confirmUploadSchema e updates =
     (list_all (\<lambda>u. is_uuid (imageId u)) updates \<and> length updates \<ge> 1
      \<and> \<not> too_big (int (length updates)) (MAX_IMAGES e))"

definition deleteImagesSchema :: "env \<Rightarrow> string list \<Rightarrow> bool" where
  "deleteImagesSchema e imageIds =
     (list_all is_uuid imageIds \<and> length imageIds \<ge> 1
      \<and> \<not> too_big (int (length imageIds)) (MAX_IMAGES e))"

section \<open>POST presign\<close>

definition IMAGE_EXPIRATION_SECONDS :: "env \<Rightarrow> int option" where
  "IMAGE_EXPIRATION_SECONDS e = parseInt (env_or (env_NEXT_PUBLIC_MAX_IMAGE_SIZE_KB e) ''300'')"

text \<open>The signer is asked for a URL that is valid for \<open>expiresIn\<close> seconds.\<close>

definition getSignedUrlForUpload :: "world \<Rightarrow> string \<Rightarrow> string \<Rightarrow> int \<Rightarrow> string option" where
  "getSignedUrlForUpload w key contentType fsize = s3_getSignedUrl w key contentType fsize 3600"

record presigned =
  pre_objectKey :: string
  pre_presignedUrl :: string
  pre_publicFileUrl :: string
  pre_fileType :: string
  pre_fileSize :: int
  pre_expiresAt :: "int option"

record SinglePresignResponse =
  res_objectKey :: string
  res_presignedUrl :: string
  res_publicFileUrl :: string
  res_imageId :: string
  res_expiresAt :: "int option"

text \<open>
  The callback of \<open>images.map\<close> for the item at position \<open>i\<close>; \<open>clock w i\<close> is the
  time \<open>Date.now()\<close> reads when that item's signed URL has arrived. A date built from
  \<open>NaN\<close> is invalid: \<open>None\<close>.
\<close>

definition presign_item :: "world \<Rightarrow> env \<Rightarrow> string \<Rightarrow> nat \<times> SingleImageRequest \<Rightarrow> presigned option" where
  "presign_item w e uid p =
     (let i = fst p; img = snd p;
          objectKey = uid @ ''/'' @ fileId img;
          publicFileUrl = interpolate (env_R2_PUBLIC_BASE_URL e) @ ''/'' @ objectKey
      in case getSignedUrlForUpload w objectKey (fileType img) (fileSize img) of
           None \<Rightarrow> None
         | Some presignedUrl \<Rightarrow>
             Some \<lparr>pre_objectKey = objectKey, pre_presignedUrl = presignedUrl,
                   pre_publicFileUrl = publicFileUrl, pre_fileType = fileType img,
                   pre_fileSize = fileSize img,
                   pre_expiresAt = map_option (\<lambda>s. clock w i + s * 1000)
                                     (IMAGE_EXPIRATION_SECONDS e)\<rparr>)"

text \<open>
  The two \<open>map\<close> calls after the signing: the rows to insert, and the results that pair
  each signed URL with the identifier of the record at the same position.
\<close>

definition imageData_of :: "string \<Rightarrow> presigned list \<Rightarrow> NewImage list" where
  "imageData_of uid presignedResults =
     map (\<lambda>result. \<lparr>new_userId = uid, new_objectKey = pre_objectKey result,
                      new_fileUrl = pre_publicFileUrl result,
                      new_mimeType = pre_fileType result,
                      new_sizeBytes = pre_fileSize result, new_status = pending\<rparr>)
       presignedResults"

definition results_of :: "presigned list \<Rightarrow> image list \<Rightarrow> SinglePresignResponse list" where
  "results_of presignedResults imageRecords =
     map (\<lambda>(index, result).
            \<lparr>res_objectKey = pre_objectKey result,
             res_presignedUrl = pre_presignedUrl result,
             res_publicFileUrl = pre_publicFileUrl result,
             res_imageId = id_col (imageRecords ! index),
             res_expiresAt = pre_expiresAt result\<rparr>)
       (enumerate 0 presignedResults)"

text \<open>
  \<open>Promise.all\<close> rejects when one of the signer calls throws (\<open>those\<close> is \<open>None\<close>);
  the handler's \<open>catch\<close> answers 500. The insert runs after every URL has arrived, and
  returns as many rows as it was given, so \<open>imageRecords[index]\<close> is in range. This
  handler tests \<open>userId\<close> alone; past the test \<open>userId\<close> is a non-empty string, which
  \<open>uid\<close> holds.
\<close>

definition presign_POST ::
  "world \<Rightarrow> env \<Rightarrow> SingleImageRequest list request \<Rightarrow> image list
     \<Rightarrow> SinglePresignResponse list response \<times> image list" where
  "presign_POST w e req db =
     (let a = authCheck e (authorization req) in
      if \<not> truthy (auth_userId a) then
        (\<lparr>http_status = 401, json = Error ''Unauthorized - invalid or missing authentication''\<rparr>, db)
      else
        let uid = interpolate (auth_userId a) in
        case body req of
          NotJson \<Rightarrow> (\<lparr>http_status = 500, json = Error ''Internal server error''\<rparr>, db)
        | IllTyped \<Rightarrow> (\<lparr>http_status = 400, json = InvalidRequest ''Invalid request data''\<rparr>, db)
        | Typed images \<Rightarrow>
            if \<not> presignRequestSchema e images then
              (\<lparr>http_status = 400, json = InvalidRequest ''Invalid request data''\<rparr>, db)
            else
              (case those (map (presign_item w e uid) (enumerate 0 images)) of
                 None \<Rightarrow> (\<lparr>http_status = 500, json = Error ''Internal server error''\<rparr>, db)
               | Some presignedResults \<Rightarrow>
                   (case createImageRecordsBatch w (clock w (length images)) db
                           (imageData_of uid presignedResults) of
                      None \<Rightarrow> (\<lparr>http_status = 500, json = Error ''Internal server error''\<rparr>, db)
                    | Some (imageRecords, db') \<Rightarrow>
                        (\<lparr>http_status = 200,
                          json = Ok (results_of presignedResults imageRecords)\<rparr>, db'))))"

section \<open>POST confirm\<close>

record groupedUpdates =
  grp_completed :: "string list option"
  grp_failed :: "string list option"

definition group_step :: "groupedUpdates \<Rightarrow> ImageUpdate \<Rightarrow> groupedUpdates" where
  "group_step acc update =
     (case upd_status update of
        confirm_completed \<Rightarrow>
          acc\<lparr>grp_completed := Some ((case grp_completed acc of None \<Rightarrow> [] | Some xs \<Rightarrow> xs)
                                       @ [imageId update])\<rparr>
      | confirm_failed \<Rightarrow>
          acc\<lparr>grp_failed := Some ((case grp_failed acc of None \<Rightarrow> [] | Some xs \<Rightarrow> xs)
                                    @ [imageId update])\<rparr>)"

definition group_updates :: "ImageUpdate list \<Rightarrow> groupedUpdates" where
  "group_updates updates = foldl group_step \<lparr>grp_completed = None, grp_failed = None\<rparr> updates"

record ConfirmUploadResponse =
  message :: string
  updatedCount :: nat

text \<open>
  The two statements run one after the other, the completed group first; \<open>clock w 0\<close>
  and \<open>clock w 1\<close> are the times \<open>new Date()\<close> reads in them. \<open>update_group\<close> is one
  of the two guarded blocks: the statement runs when its group exists and is not empty.
  A statement that throws is caught by the handler's \<open>catch\<close>; what an earlier statement
  wrote stays written.
\<close>

definition update_group ::
  "int \<Rightarrow> image list \<Rightarrow> string list option \<Rightarrow> confirm_status \<Rightarrow> string
     \<Rightarrow> (image list \<times> image list) option" where
  "update_group now db grp st uid =
     (case grp of
        None \<Rightarrow> Some ([], db)
      | Some ids \<Rightarrow>
          if length ids > 0 then updateImageStatusBatch now db ids st uid else Some ([], db))"

definition confirm_POST ::
  "world \<Rightarrow> env \<Rightarrow> ImageUpdate list request \<Rightarrow> image list
     \<Rightarrow> ConfirmUploadResponse response \<times> image list" where
  "confirm_POST w e req db =
     (let a = authCheck e (authorization req) in
      if \<not> authenticated a \<or> \<not> truthy (auth_userId a) then
        (\<lparr>http_status = 401, json = Error ''Unauthorized - invalid or missing authentication''\<rparr>, db)
      else
        let uid = interpolate (auth_userId a) in
        case body req of
          NotJson \<Rightarrow> (\<lparr>http_status = 500, json = Error ''Internal server error''\<rparr>, db)
        | IllTyped \<Rightarrow> (\<lparr>http_status = 400, json = InvalidRequest ''Invalid request data''\<rparr>, db)
        | Typed updates \<Rightarrow>
            if \<not> confirmUploadSchema e updates then
              (\<lparr>http_status = 400, json = InvalidRequest ''Invalid request data''\<rparr>, db)
            else
              let g = group_updates updates in
              (case update_group (clock w 0) db (grp_completed g) confirm_completed uid of
                 None \<Rightarrow> (\<lparr>http_status = 500, json = Error ''Internal server error''\<rparr>, db)
               | Some (completedImages, db1) \<Rightarrow>
                   (case update_group (clock w 1) db1 (grp_failed g) confirm_failed uid of
                      None \<Rightarrow> (\<lparr>http_status = 500, json = Error ''Internal server error''\<rparr>, db1)
                    | Some (failedImages, db2) \<Rightarrow>
                        let allUpdatedImages = completedImages @ failedImages
                        in (\<lparr>http_status = 200,
                             json = Ok \<lparr>message = ''Images table updated successfully'',
                                        updatedCount = length allUpdatedImages\<rparr>\<rparr>, db2))))"

section \<open>DELETE files\<close>

record DeleteResponse =
  del_message :: string
  deletedCount :: nat
  deletedImages :: "key_row list"

definition deleteFiles :: "world \<Rightarrow> string list \<Rightarrow> DeleteObjectsOutput option" where
  "deleteFiles w keys = s3_DeleteObjects w keys"

text \<open>
  \<open>foundImageIds.includes(id)\<close> compares the requested text with the identifiers as
  the database printed them.
\<close>

definition files_DELETE ::
  "world \<Rightarrow> env \<Rightarrow> string list request \<Rightarrow> image list \<Rightarrow> DeleteResponse response \<times> image list" where
  "files_DELETE w e req db =
     (let a = authCheck e (authorization req) in
      if \<not> authenticated a \<or> \<not> truthy (auth_userId a) then
        (\<lparr>http_status = 401, json = Error ''Unauthorized - invalid or missing authentication''\<rparr>, db)
      else
        let uid = interpolate (auth_userId a) in
        case body req of
          NotJson \<Rightarrow> (\<lparr>http_status = 500, json = Error ''Internal server error''\<rparr>, db)
        | IllTyped \<Rightarrow> (\<lparr>http_status = 400, json = InvalidRequest ''Invalid request data''\<rparr>, db)
        | Typed imageIds \<Rightarrow>
            if \<not> deleteImagesSchema e imageIds then
              (\<lparr>http_status = 400, json = InvalidRequest ''Invalid request data''\<rparr>, db)
            else
              (case getImageObjectKeysByUserAndIds db uid imageIds of
                 None \<Rightarrow> (\<lparr>http_status = 500, json = Error ''Internal server error''\<rparr>, db)
               | Some imageObjectKeys \<Rightarrow>
                   if length imageObjectKeys = 0 then
                     (\<lparr>http_status = 403,
                       json = Error ''No images found or images do not belong to user''\<rparr>, db)
                   else
                     let foundImageIds = map key_id imageObjectKeys;
                         missingImageIds = filter (\<lambda>i. i \<notin> set foundImageIds) imageIds
                     in if length missingImageIds > 0 then
                          (\<lparr>http_status = 403,
                            json = MissingImages ''Some images not found or do not belong to user''
                                     missingImageIds\<rparr>, db)
                        else
                          let objectKeys = map key_objectKey imageObjectKeys in
                          (case deleteFiles w objectKeys of
                             None \<Rightarrow>
                               (\<lparr>http_status = 500,
                                 json = Error ''Failed to delete images from storage''\<rparr>, db)
                           | Some response \<Rightarrow>
                               if (case Errors response of None \<Rightarrow> False
                                   | Some es \<Rightarrow> length es > 0)
                               then
                                 (\<lparr>http_status = 500,
                                   json = StorageErrors ''Failed to delete some images from storage''
                                            (case Errors response of None \<Rightarrow> [] | Some es \<Rightarrow> es)\<rparr>,
                                  db)
                               else
                                 (case markImagesAsDeleted (clock w 0) db imageIds uid of
                                    None \<Rightarrow>
                                      (\<lparr>http_status = 500,
                                        json = Error ''Internal server error''\<rparr>, db)
                                  | Some (deletedRows, db') \<Rightarrow>
                                      (\<lparr>http_status = 200,
                                        json = Ok \<lparr>del_message = ''Images deleted successfully'',
                                          deletedCount = length deletedRows,
                                          deletedImages = map (\<lambda>img.
                                            \<lparr>key_id = id_col img, key_objectKey = objectKey img\<rparr>)
                                            deletedRows\<rparr>\<rparr>, db')))))"

section \<open>Notions used in the statements\<close>

text \<open>The identifiers a confirm request lists under one outcome, in request order.\<close>

definition ids_with :: "confirm_status \<Rightarrow> ImageUpdate list \<Rightarrow> string list" where
  "ids_with st updates = map imageId (filter (\<lambda>u. upd_status u = st) updates)"

text \<open>
  A list of requested identifiers names a row when one of them is, read as a uuid, the
  row's identifier.
\<close>

definition names :: "string list \<Rightarrow> image \<Rightarrow> bool" where
  "names ids r = list_ex (\<lambda>i. uuid_in i = Some (id_col r)) ids"

text \<open>A batch delete that threw, or that came back with at least one per-key error.\<close>

definition storage_delete_failed :: "DeleteObjectsOutput option \<Rightarrow> bool" where
  "storage_delete_failed r =
     (case r of None \<Rightarrow> True
      | Some out \<Rightarrow> (case Errors out of None \<Rightarrow> False | Some es \<Rightarrow> es \<noteq> []))"

subsection \<open>A sample deployment\<close>

text \<open>
  One owner \<open>ex_uid\<close> whose token is configured, another owner \<open>ex_other\<close>, a storage
  that signs and deletes without error (and two that do not), a table row with a chosen
  identifier, owner and status, and requests of the first owner. \<open>ex_id_upper\<close> is
  \<open>ex_id\<close> written in upper case: the same uuid, another text.
\<close>

definition ex_uid :: string where "ex_uid = ''11111111-1111-4111-8111-111111111111''"
definition ex_other :: string where "ex_other = ''22222222-2222-4222-8222-222222222222''"
definition ex_id :: string where "ex_id = ''aaaaaaaa-aaaa-4aaa-8aaa-aaaaaaaaaaaa''"
definition ex_id2 :: string where "ex_id2 = ''bbbbbbbb-bbbb-4bbb-8bbb-bbbbbbbbbbbb''"
definition ex_file :: string where "ex_file = ''ffffffff-ffff-4fff-8fff-ffffffffffff''"

definition ex_env :: env where
  "ex_env = \<lparr>env_NEXT_PUBLIC_OUR_AUTH_TOKEN = Some ex_uid,
             env_R2_PUBLIC_BASE_URL = Some ''https://cdn.example'',
             env_NEXT_PUBLIC_MAX_IMAGE_SIZE_KB = None, env_MAX_IMAGE_SIZE_KB = None,
             env_MAX_IMAGES = None\<rparr>"

definition ex_world :: world where
  "ex_world = \<lparr>clock = (\<lambda>n. 1000 + int n),
               gen_random_uuid = (\<lambda>n. if n = 0 then ex_id else ex_id2),
               insert_accepted = (\<lambda>rows. True),
               s3_getSignedUrl = (\<lambda>key contentType fsize expiresIn. Some (''https://r2.example/'' @ key)),
               s3_DeleteObjects = (\<lambda>keys. Some \<lparr>Errors = None\<rparr>)\<rparr>"

definition ex_image :: "string \<Rightarrow> string \<Rightarrow> status \<Rightarrow> image" where
  "ex_image rid owner st =
     \<lparr>id_col = rid, userId = owner, objectKey = owner @ ''/'' @ ex_file,
      fileUrl = ''https://cdn.example/'' @ owner @ ''/'' @ ex_file, mimeType = ''image/webp'',
      sizeBytes = 500000, status = st, createdAt = 0, completedAt = None\<rparr>"

definition ex_id_upper :: string where "ex_id_upper = ''AAAAAAAA-AAAA-4AAA-8AAA-AAAAAAAAAAAA''"

definition ex_confirm :: "(string \<times> confirm_status) list \<Rightarrow> ImageUpdate list request" where
  "ex_confirm entries =
     \<lparr>authorization = Some (''Bearer '' @ ex_uid),
      body = Typed (map (\<lambda>(i, st). \<lparr>imageId = i, upd_status = st\<rparr>) entries)\<rparr>"

definition ex_delete :: "string list \<Rightarrow> string list request" where
  "ex_delete ids = \<lparr>authorization = Some (''Bearer '' @ ex_uid), body = Typed ids\<rparr>"

definition ex_failing_storage :: world where
  "ex_failing_storage =
     ex_world\<lparr>s3_DeleteObjects := (\<lambda>keys. Some \<lparr>Errors = Some
        [\<lparr>err_Key = (case keys of [] \<Rightarrow> None | k # rest \<Rightarrow> Some k), err_Code = Some ''AccessDenied'',
          err_Message = Some ''Access Denied''\<rparr>]\<rparr>)\<rparr>"

definition ex_single :: SingleImageRequest where
  "ex_single = \<lparr>fileId = ex_file, fileType = ''image/webp'', fileSize = 500000\<rparr>"

definition ex_presign :: "SingleImageRequest list \<Rightarrow> SingleImageRequest list request" where
  "ex_presign images = \<lparr>authorization = Some (''Bearer '' @ ex_uid), body = Typed images\<rparr>"

definition ex_failing_signer :: world where
  "ex_failing_signer = ex_world\<lparr>s3_getSignedUrl := (\<lambda>key contentType fsize expiresIn. None)\<rparr>"

section \<open>Capability check: the bearer token\<close>

text \<open>
  Claim C10. With a token configured, \<open>authCheck\<close> authenticates a request exactly when
  its authorization header is the text \<open>Bearer\<close>, a space and the token; the identity
  it returns is the token itself, so any two authenticated requests carry the same
  identity.
\<close>

theorem authCheck_bearer_token:
  assumes "OUR_AUTH_TOKEN e = Some t"
  shows "(authenticated (authCheck e h) \<longleftrightarrow> h = Some (''Bearer '' @ t))
    \<and> (authenticated (authCheck e h) \<longrightarrow> auth_userId (authCheck e h) = Some t)
    \<and> (authenticated (authCheck e h) \<and> authenticated (authCheck e h')
         \<longrightarrow> auth_userId (authCheck e h) = auth_userId (authCheck e h'))"
  using assms by (auto simp: authCheck_def truthy_def interpolate_def split: option.splits)

theorem authCheck_bearer_token_witness:
  "OUR_AUTH_TOKEN ex_env = Some ex_uid
   \<and> authenticated (authCheck ex_env (Some (''Bearer '' @ ex_uid)))
   \<and> \<not> authenticated (authCheck ex_env (Some ex_uid))
   \<and> auth_userId (authCheck ex_env (Some (''Bearer '' @ ex_uid))) = Some ex_uid"
proof -
  have t: "OUR_AUTH_TOKEN ex_env = Some ex_uid"
    by (simp add: OUR_AUTH_TOKEN_def ex_env_def)
  have "Some ex_uid \<noteq> Some (''Bearer '' @ ex_uid)"
    by simp
  with t authCheck_bearer_token [OF t, of "Some (''Bearer '' @ ex_uid)"]
    authCheck_bearer_token [OF t, of "Some ex_uid"]
  show ?thesis by simp
qed

section \<open>Identifiers that passed the schema are read by the database\<close>

lemma xdigit_not_special: "is_digit 16 c \<Longrightarrow> c \<noteq> CHR ''-'' \<and> c \<noteq> CHR ''{''"
  by (auto simp: is_digit_def digit_val_def Let_def split: if_splits)

lemma is_uuid_uuid_in:
  assumes "is_uuid s"
  shows "uuid_in s = Some (map to_lower s)"
proof -
  from assms have "length s = 36" by (simp add: is_uuid_def)
  then obtain c0 c1 c2 c3 c4 c5 c6 c7 c8 c9 c10 c11 c12 c13 c14 c15 c16 c17 c18 c19 c20
      c21 c22 c23 c24 c25 c26 c27 c28 c29 c30 c31 c32 c33 c34 c35
    where s: "s = [c0, c1, c2, c3, c4, c5, c6, c7, c8, c9, c10, c11, c12, c13, c14, c15, c16,
      c17, c18, c19, c20, c21, c22, c23, c24, c25, c26, c27, c28, c29, c30, c31, c32, c33,
      c34, c35]"
    by (auto simp: length_Suc_conv eval_nat_numeral)
  from assms have h: "c8 = CHR ''-''" "c13 = CHR ''-''" "c18 = CHR ''-''" "c23 = CHR ''-''"
    and x: "is_digit 16 c0" "is_digit 16 c1" "is_digit 16 c2" "is_digit 16 c3"
      "is_digit 16 c4" "is_digit 16 c5" "is_digit 16 c6" "is_digit 16 c7"
      "is_digit 16 c9" "is_digit 16 c10" "is_digit 16 c11" "is_digit 16 c12"
      "is_digit 16 c14" "is_digit 16 c15" "is_digit 16 c16" "is_digit 16 c17"
      "is_digit 16 c19" "is_digit 16 c20" "is_digit 16 c21" "is_digit 16 c22"
      "is_digit 16 c24" "is_digit 16 c25" "is_digit 16 c26" "is_digit 16 c27"
      "is_digit 16 c28" "is_digit 16 c29" "is_digit 16 c30" "is_digit 16 c31"
      "is_digit 16 c32" "is_digit 16 c33" "is_digit 16 c34" "is_digit 16 c35"
    by (simp_all add: is_uuid_def s)
  have l: "to_lower CHR ''-'' = CHR ''-''" by (simp add: to_lower_def)
  have n: "c0 \<noteq> CHR ''{''" "c4 \<noteq> CHR ''-''" "c28 \<noteq> CHR ''-''" "c32 \<noteq> CHR ''-''"
    using x xdigit_not_special by blast+
  show ?thesis
    using x n by (simp add: s h uuid_in_def uuid_out_def eval_nat_numeral l)
qed

lemma those_map_total: "(\<And>x. x \<in> set xs \<Longrightarrow> f x = Some (g x)) \<Longrightarrow> those (map f xs) = Some (map g xs)"
  by (induction xs) simp_all

lemma uuid_params_valid:
  "list_all is_uuid ids \<Longrightarrow> uuid_params ids = Some (map (map to_lower) ids)"
  unfolding uuid_params_def
  by (rule those_map_total) (simp add: list_all_iff is_uuid_uuid_in)

lemma names_valid:
  assumes "list_all is_uuid ids"
  shows "id_col r \<in> set (map (map to_lower) ids) \<longleftrightarrow> names ids r"
proof -
  have "uuid_in i = Some (id_col r) \<longleftrightarrow> id_col r = map to_lower i" if "i \<in> set ids" for i
    using that assms by (auto simp: list_all_iff is_uuid_uuid_in)
  then show ?thesis by (auto simp: names_def list_ex_iff)
qed

lemma names_Nil [simp]: "\<not> names [] r"
  by (simp add: names_def)

section \<open>The two updates and the select, statement by statement\<close>

lemma usb_unreadable_owner: "uuid_in uid = None \<Longrightarrow> updateImageStatusBatch t db ids st uid = None"
  by (simp add: updateImageStatusBatch_def split: option.splits)

lemma usb_readable:
  assumes "list_all is_uuid ids" and "uuid_in uid = Some u"
  shows "updateImageStatusBatch t db ids st uid =
     Some (map (\<lambda>r. r\<lparr>status := to_status st, completedAt := Some t\<rparr>)
             (filter (\<lambda>r. names ids r \<and> userId r = u) db),
           map (\<lambda>r. if names ids r \<and> userId r = u
                     then r\<lparr>status := to_status st, completedAt := Some t\<rparr> else r) db)"
  using assms
  by (simp add: updateImageStatusBatch_def uuid_params_valid names_valid [OF assms(1)] del: set_map)

lemma usb_Some_owner:
  "updateImageStatusBatch t db ids st uid = Some (rows, db') \<Longrightarrow>
     list_all (\<lambda>r. uuid_in uid = Some (userId r)) rows"
  by (auto simp: updateImageStatusBatch_def list_all_iff split: option.splits)

lemma mad_unreadable_owner: "uuid_in uid = None \<Longrightarrow> markImagesAsDeleted t db ids uid = None"
  by (simp add: markImagesAsDeleted_def split: option.splits)

lemma mad_readable:
  assumes "list_all is_uuid ids" and "uuid_in uid = Some u"
  shows "markImagesAsDeleted t db ids uid =
     Some (map (\<lambda>r. r\<lparr>status := deleted, completedAt := Some t\<rparr>)
             (filter (\<lambda>r. names ids r \<and> userId r = u \<and> status r = completed) db),
           map (\<lambda>r. if names ids r \<and> userId r = u \<and> status r = completed
                     then r\<lparr>status := deleted, completedAt := Some t\<rparr> else r) db)"
  using assms
  by (simp add: markImagesAsDeleted_def uuid_params_valid names_valid [OF assms(1)] del: set_map)

lemma mad_Some_owner:
  "markImagesAsDeleted t db ids uid = Some (rows, db') \<Longrightarrow>
     list_all (\<lambda>r. uuid_in uid = Some (userId r)) rows"
  by (auto simp: markImagesAsDeleted_def list_all_iff split: option.splits)

lemma keys_unreadable_owner: "uuid_in uid = None \<Longrightarrow> getImageObjectKeysByUserAndIds db uid ids = None"
  by (simp add: getImageObjectKeysByUserAndIds_def)

lemma keys_readable:
  assumes "list_all is_uuid ids" and "uuid_in uid = Some u"
  shows "getImageObjectKeysByUserAndIds db uid ids =
     Some (map (\<lambda>r. \<lparr>key_id = id_col r, key_objectKey = objectKey r\<rparr>)
             (filter (\<lambda>r. userId r = u \<and> names ids r \<and> status r = completed) db))"
  using assms
  by (simp add: getImageObjectKeysByUserAndIds_def uuid_params_valid names_valid [OF assms(1)]
      del: set_map)

section \<open>Confirm: what the two grouped updates do\<close>

lemma grp_completed_step:
  "grp_completed (group_step acc u) =
     (if upd_status u = confirm_completed
      then Some ((case grp_completed acc of None \<Rightarrow> [] | Some xs \<Rightarrow> xs) @ [imageId u])
      else grp_completed acc)"
  by (cases "upd_status u") (simp_all add: group_step_def)

lemma grp_failed_step:
  "grp_failed (group_step acc u) =
     (if upd_status u = confirm_failed
      then Some ((case grp_failed acc of None \<Rightarrow> [] | Some xs \<Rightarrow> xs) @ [imageId u])
      else grp_failed acc)"
  by (cases "upd_status u") (simp_all add: group_step_def)

lemma grp_completed_foldl:
  "grp_completed (foldl group_step acc us) =
     (if ids_with confirm_completed us = [] then grp_completed acc
      else Some ((case grp_completed acc of None \<Rightarrow> [] | Some xs \<Rightarrow> xs)
                 @ ids_with confirm_completed us))"
  by (induction us arbitrary: acc) (simp_all add: grp_completed_step ids_with_def)

lemma grp_failed_foldl:
  "grp_failed (foldl group_step acc us) =
     (if ids_with confirm_failed us = [] then grp_failed acc
      else Some ((case grp_failed acc of None \<Rightarrow> [] | Some xs \<Rightarrow> xs)
                 @ ids_with confirm_failed us))"
  by (induction us arbitrary: acc) (simp_all add: grp_failed_step ids_with_def)

lemma grp_completed_group_updates:
  "grp_completed (group_updates us) =
     (if ids_with confirm_completed us = [] then None else Some (ids_with confirm_completed us))"
  by (simp add: group_updates_def grp_completed_foldl)

lemma grp_failed_group_updates:
  "grp_failed (group_updates us) =
     (if ids_with confirm_failed us = [] then None else Some (ids_with confirm_failed us))"
  by (simp add: group_updates_def grp_failed_foldl)

lemma ids_with_valid: "confirmUploadSchema e updates \<Longrightarrow> list_all is_uuid (ids_with st updates)"
  by (auto simp: confirmUploadSchema_def ids_with_def list_all_iff)

lemma ids_with_some:
  assumes "confirmUploadSchema e updates"
  shows "ids_with confirm_completed updates \<noteq> [] \<or> ids_with confirm_failed updates \<noteq> []"
proof -
  from assms obtain u us where "updates = u # us"
    by (cases updates) (auto simp: confirmUploadSchema_def)
  then show ?thesis by (cases "upd_status u") (simp_all add: ids_with_def)
qed

lemma names_ids_with:
  "names (ids_with st us) r \<longleftrightarrow>
     list_ex (\<lambda>u. upd_status u = st \<and> uuid_in (imageId u) = Some (id_col r)) us"
  by (auto simp: names_def ids_with_def list_ex_iff)

lemma usb_readable_Nil: "uuid_in uid = Some u \<Longrightarrow> updateImageStatusBatch t db [] st uid = Some ([], db)"
  by (simp add: updateImageStatusBatch_def uuid_params_def)

text \<open>A confirm request that passed the checks, from a caller whose token is a UUID.\<close>

lemma confirm_POST_run:
  assumes "authenticated (authCheck e (authorization req))"
    and "auth_userId (authCheck e (authorization req)) = Some uid" and "uid \<noteq> []"
    and "body req = Typed updates" and "confirmUploadSchema e updates"
    and "uuid_in uid = Some u"
  shows "confirm_POST w e req db =
     (let hitC = (\<lambda>r. names (ids_with confirm_completed updates) r \<and> userId r = u);
          hitF = (\<lambda>r. names (ids_with confirm_failed updates) r \<and> userId r = u);
          db1 = map (\<lambda>r. if hitC r then r\<lparr>status := completed, completedAt := Some (clock w 0)\<rparr>
                          else r) db;
          db2 = map (\<lambda>r. if hitF r then r\<lparr>status := failed, completedAt := Some (clock w 1)\<rparr>
                          else r) db1
      in (\<lparr>http_status = 200,
           json = Ok \<lparr>message = ''Images table updated successfully'',
                      updatedCount = length (filter hitC db) + length (filter hitF db1)\<rparr>\<rparr>, db2))"
proof -
  let ?C = "ids_with confirm_completed updates" and ?F = "ids_with confirm_failed updates"
  define hitC where "hitC = (\<lambda>r. names ?C r \<and> userId r = u)"
  define hitF where "hitF = (\<lambda>r. names ?F r \<and> userId r = u)"
  define r1 where "r1 = map (\<lambda>r. r\<lparr>status := completed, completedAt := Some (clock w 0)\<rparr>)
                          (filter hitC db)"
  define db1 where "db1 = map (\<lambda>r. if hitC r
      then r\<lparr>status := completed, completedAt := Some (clock w 0)\<rparr> else r) db"
  define r2 where "r2 = map (\<lambda>r. r\<lparr>status := failed, completedAt := Some (clock w 1)\<rparr>)
                          (filter hitF db1)"
  define db2 where "db2 = map (\<lambda>r. if hitF r
      then r\<lparr>status := failed, completedAt := Some (clock w 1)\<rparr> else r) db1"
  have s1: "updateImageStatusBatch (clock w 0) db ?C confirm_completed uid = Some (r1, db1)"
    by (simp add: usb_readable [OF ids_with_valid [OF assms(5)] assms(6)] r1_def db1_def hitC_def)
  have s2: "updateImageStatusBatch (clock w 1) db1 ?F confirm_failed uid = Some (r2, db2)"
    by (simp add: usb_readable [OF ids_with_valid [OF assms(5)] assms(6)] r2_def db2_def hitF_def)
  have g1: "update_group (clock w 0) db (grp_completed (group_updates updates))
               confirm_completed uid = Some (r1, db1)"
    using s1 usb_readable_Nil [OF assms(6), of "clock w 0" db confirm_completed]
    by (cases "ids_with confirm_completed updates = []")
      (simp_all add: update_group_def grp_completed_group_updates)
  have g2: "update_group (clock w 1) db1 (grp_failed (group_updates updates))
               confirm_failed uid = Some (r2, db2)"
    using s2 usb_readable_Nil [OF assms(6), of "clock w 1" db1 confirm_failed]
    by (cases "ids_with confirm_failed updates = []")
      (simp_all add: update_group_def grp_failed_group_updates)
  have "confirm_POST w e req db =
      (\<lparr>http_status = 200,
        json = Ok \<lparr>message = ''Images table updated successfully'',
                   updatedCount = length (r1 @ r2)\<rparr>\<rparr>, db2)"
    using assms(1-5)
    by (simp add: confirm_POST_def Let_def truthy_def interpolate_def g1 g2 del: One_nat_def)
  then show ?thesis
    by (simp add: Let_def r1_def r2_def db1_def db2_def hitC_def hitF_def)
qed

text \<open>The same request from a caller whose token the database cannot read as a UUID.\<close>

lemma confirm_POST_unreadable_owner:
  assumes "authenticated (authCheck e (authorization req))"
    and "auth_userId (authCheck e (authorization req)) = Some uid" and "uid \<noteq> []"
    and "body req = Typed updates" and "confirmUploadSchema e updates"
    and "uuid_in uid = None"
  shows "confirm_POST w e req db = (\<lparr>http_status = 500, json = Error ''Internal server error''\<rparr>, db)"
  using assms(1-5) ids_with_some [OF assms(5)]
  by (auto simp: confirm_POST_def truthy_def interpolate_def grp_completed_group_updates
      grp_failed_group_updates Let_def update_group_def usb_unreadable_owner [OF assms(6)])

lemma confirm_POST_rejected:
  assumes "\<not> (authenticated (authCheck e (authorization req))
              \<and> truthy (auth_userId (authCheck e (authorization req)))
              \<and> (\<exists>us. body req = Typed us \<and> confirmUploadSchema e us))"
  shows "confirm_POST w e req db = (fst (confirm_POST w' e req db'), db)"
  using assms by (auto simp: confirm_POST_def Let_def split: json_body.splits)

lemma confirm_POST_nth:
  assumes "authenticated (authCheck e (authorization req))"
    and "auth_userId (authCheck e (authorization req)) = Some uid" and "uid \<noteq> []"
    and "body req = Typed updates" and "confirmUploadSchema e updates"
    and "k < length db"
  shows "snd (confirm_POST w e req db) ! k =
     (if uuid_in uid = Some (userId (db ! k)) \<and> names (ids_with confirm_failed updates) (db ! k)
      then (db ! k)\<lparr>status := failed, completedAt := Some (clock w 1)\<rparr>
      else if uuid_in uid = Some (userId (db ! k))
            \<and> names (ids_with confirm_completed updates) (db ! k)
      then (db ! k)\<lparr>status := completed, completedAt := Some (clock w 0)\<rparr>
      else db ! k)"
proof (cases "uuid_in uid")
  case None
  then show ?thesis by (simp add: confirm_POST_unreadable_owner [OF assms(1-5)])
next
  case (Some u)
  have "uuid_in uid = Some (userId (db ! k)) \<longleftrightarrow> userId (db ! k) = u"
    using Some by auto
  then show ?thesis
    using assms(6) by (simp add: confirm_POST_run [OF assms(1-5) Some] Let_def names_def)
qed

lemma confirm_POST_length: "length (snd (confirm_POST w e req db)) = length db"
proof (cases "authenticated (authCheck e (authorization req))
              \<and> truthy (auth_userId (authCheck e (authorization req)))
              \<and> (\<exists>us. body req = Typed us \<and> confirmUploadSchema e us)")
  case False
  then show ?thesis
    using confirm_POST_rejected [OF False, of w db w db] by (metis snd_conv)
next
  case True
  then obtain uid us where acc: "authenticated (authCheck e (authorization req))"
      "auth_userId (authCheck e (authorization req)) = Some uid" "uid \<noteq> []"
      "body req = Typed us" "confirmUploadSchema e us"
    by (auto simp: truthy_def split: option.splits)
  show ?thesis
  proof (cases "uuid_in uid")
    case None
    then show ?thesis by (simp add: confirm_POST_unreadable_owner [OF acc])
  next
    case (Some u)
    then show ?thesis by (simp add: confirm_POST_run [OF acc Some] Let_def)
  qed
qed

lemma names_cong: "id_col r = id_col r' \<Longrightarrow> names ids r = names ids r'"
  by (simp add: names_def)

lemma nth_col: "k < length xs \<Longrightarrow> map f xs = map f ys \<Longrightarrow> f (xs ! k) = f (ys ! k)"
  by (metis length_map nth_map)

lemma filter_cong_cols:
  "map id_col xs = map id_col ys \<Longrightarrow> map userId xs = map userId ys \<Longrightarrow>
   length (filter (\<lambda>r. names ids r \<and> userId r = u) xs)
     = length (filter (\<lambda>r. names ids r \<and> userId r = u) ys)"
proof (induction xs arbitrary: ys)
  case Nil
  then show ?case by simp
next
  case (Cons x xs)
  then obtain y ys' where "ys = y # ys'" by (cases ys) auto
  with Cons show ?case by (auto simp: names_cong [of x y])
qed

text \<open>The three ways a confirm request can go.\<close>

lemma confirm_POST_cases:
  obtains
    (rejected) "\<not> (authenticated (authCheck e (authorization req))
              \<and> truthy (auth_userId (authCheck e (authorization req)))
              \<and> (\<exists>us. body req = Typed us \<and> confirmUploadSchema e us))"
  | (unreadable) uid us where "authenticated (authCheck e (authorization req))"
      "auth_userId (authCheck e (authorization req)) = Some uid" "uid \<noteq> []"
      "body req = Typed us" "confirmUploadSchema e us" "uuid_in uid = None"
  | (run) uid us u where "authenticated (authCheck e (authorization req))"
      "auth_userId (authCheck e (authorization req)) = Some uid" "uid \<noteq> []"
      "body req = Typed us" "confirmUploadSchema e us" "uuid_in uid = Some u"
proof (cases "authenticated (authCheck e (authorization req))
              \<and> truthy (auth_userId (authCheck e (authorization req)))
              \<and> (\<exists>us. body req = Typed us \<and> confirmUploadSchema e us)")
  case False
  then show ?thesis by (rule rejected)
next
  case True
  then obtain uid us where acc: "authenticated (authCheck e (authorization req))"
      "auth_userId (authCheck e (authorization req)) = Some uid" "uid \<noteq> []"
      "body req = Typed us" "confirmUploadSchema e us"
    by (auto simp: truthy_def split: option.splits)
  show ?thesis
  proof (cases "uuid_in uid")
    case None
    with acc show ?thesis by (rule unreadable)
  next
    case (Some u)
    with acc show ?thesis by (rule run)
  qed
qed

lemma confirm_POST_id_col: "map id_col (snd (confirm_POST w e req db)) = map id_col db"
proof (cases rule: confirm_POST_cases [of e req])
  case rejected
  then show ?thesis using confirm_POST_rejected [OF rejected, of w db w db] by (metis snd_conv)
next
  case (unreadable uid us)
  then show ?thesis by (simp add: confirm_POST_unreadable_owner [OF unreadable])
next
  case (run uid us u)
  show ?thesis by (simp add: confirm_POST_run [OF run] Let_def comp_def)
qed

lemma confirm_POST_userId: "map userId (snd (confirm_POST w e req db)) = map userId db"
proof (cases rule: confirm_POST_cases [of e req])
  case rejected
  then show ?thesis using confirm_POST_rejected [OF rejected, of w db w db] by (metis snd_conv)
next
  case (unreadable uid us)
  then show ?thesis by (simp add: confirm_POST_unreadable_owner [OF unreadable])
next
  case (run uid us u)
  show ?thesis by (simp add: confirm_POST_run [OF run] Let_def comp_def)
qed

lemma confirm_POST_count:
  assumes "authenticated (authCheck e (authorization req))"
    and "auth_userId (authCheck e (authorization req)) = Some uid" and "uid \<noteq> []"
    and "body req = Typed updates" and "confirmUploadSchema e updates"
    and "uuid_in uid = Some u"
  shows "fst (confirm_POST w e req db) =
     \<lparr>http_status = 200,
      json = Ok \<lparr>message = ''Images table updated successfully'',
        updatedCount =
          length (filter (\<lambda>r. names (ids_with confirm_completed updates) r \<and> userId r = u) db)
          + length (filter (\<lambda>r. names (ids_with confirm_failed updates) r \<and> userId r = u) db)\<rparr>\<rparr>"
proof -
  let ?db1 = "map (\<lambda>r. if names (ids_with confirm_completed updates) r \<and> userId r = u
      then r\<lparr>status := completed, completedAt := Some (clock w 0)\<rparr> else r) db"
  have "length (filter (\<lambda>r. names (ids_with confirm_failed updates) r \<and> userId r = u) ?db1)
      = length (filter (\<lambda>r. names (ids_with confirm_failed updates) r \<and> userId r = u) db)"
    by (rule filter_cong_cols) (simp_all add: comp_def)
  then show ?thesis
    by (simp add: confirm_POST_run [OF assms] Let_def)
qed

text \<open>
  A second confirm of the same request answers as the first did and leaves every column
  but \<open>completedAt\<close> as the first left it.
\<close>

lemma confirm_POST_repeat:
  "fst (confirm_POST w' e req (snd (confirm_POST w e req db))) = fst (confirm_POST w e req db)
   \<and> map (\<lambda>r. r\<lparr>completedAt := None\<rparr>) (snd (confirm_POST w' e req (snd (confirm_POST w e req db))))
       = map (\<lambda>r. r\<lparr>completedAt := None\<rparr>) (snd (confirm_POST w e req db))"
proof (cases rule: confirm_POST_cases [of e req])
  case rejected
  have s: "snd (confirm_POST v e req db) = db" for v
    using confirm_POST_rejected [OF rejected, of v db v db] by (metis snd_conv)
  have f: "fst (confirm_POST w' e req db) = fst (confirm_POST w e req db)"
    using confirm_POST_rejected [OF rejected, of w' db w db] by (metis fst_conv)
  show ?thesis by (simp add: s f)
next
  case (unreadable uid us)
  show ?thesis by (simp add: confirm_POST_unreadable_owner [OF unreadable])
next
  case (run uid us u)
  note acc = run(1-5)
  let ?db1 = "snd (confirm_POST w e req db)"
  let ?db2 = "snd (confirm_POST w' e req ?db1)"
  have cols: "map id_col ?db1 = map id_col db" "map userId ?db1 = map userId db"
    by (rule confirm_POST_id_col, rule confirm_POST_userId)
  have len: "length ?db1 = length db" "length ?db2 = length db"
    by (simp_all add: confirm_POST_length)
  have resp: "fst (confirm_POST w' e req ?db1) = fst (confirm_POST w e req db)"
    unfolding confirm_POST_count [OF run]
    by (simp add: filter_cong_cols [OF cols])
  have "(?db2 ! k)\<lparr>completedAt := None\<rparr> = (?db1 ! k)\<lparr>completedAt := None\<rparr>"
    if k: "k < length db" for k
  proof -
    have i: "id_col (?db1 ! k) = id_col (db ! k)" and u: "userId (?db1 ! k) = userId (db ! k)"
      using k cols len by (metis nth_col)+
    have n: "names ids (?db1 ! k) = names ids (db ! k)" for ids
      using i by (rule names_cong)
    have "?db2 ! k =
     (if uuid_in uid = Some (userId (db ! k)) \<and> names (ids_with confirm_failed us) (db ! k)
      then (?db1 ! k)\<lparr>status := failed, completedAt := Some (clock w' 1)\<rparr>
      else if uuid_in uid = Some (userId (db ! k))
            \<and> names (ids_with confirm_completed us) (db ! k)
      then (?db1 ! k)\<lparr>status := completed, completedAt := Some (clock w' 0)\<rparr>
      else ?db1 ! k)"
      using k len by (simp add: confirm_POST_nth [OF acc, of k ?db1 w'] u n)
    then show ?thesis
      using k by (simp add: confirm_POST_nth [OF acc, of k db w])
  qed
  then have "map (\<lambda>r. r\<lparr>completedAt := None\<rparr>) ?db2 = map (\<lambda>r. r\<lparr>completedAt := None\<rparr>) ?db1"
    using len by (simp add: list_eq_iff_nth_eq)
  with resp show ?thesis by simp
qed

lemma distinct_id_unique:
  "distinct (map id_col db) \<Longrightarrow> r \<in> set db \<Longrightarrow> r' \<in> set db \<Longrightarrow> id_col r = id_col r' \<Longrightarrow> r = r'"
  by (simp add: distinct_map inj_on_def)

lemma distinct_id_filter:
  assumes "distinct (map id_col db)" and "r \<in> set db"
  shows "filter (\<lambda>x. id_col x = id_col r \<and> userId x = userId r) db = [r]"
  using assms
proof (induction db)
  case Nil
  then show ?case by simp
next
  case (Cons x xs)
  show ?case
  proof (cases "x = r")
    case True
    have "id_col r \<notin> id_col ` set xs" using Cons.prems True by simp
    then have "filter (\<lambda>x. id_col x = id_col r \<and> userId x = userId r) xs = []"
      unfolding filter_empty_conv by (metis imageI)
    with True show ?thesis by simp
  next
    case False
    then have r: "r \<in> set xs" using Cons.prems by simp
    then have "id_col x \<noteq> id_col r" using Cons.prems by auto
    with Cons.IH r Cons.prems show ?thesis by simp
  qed
qed

lemma names_single: "uuid_in i = Some c \<Longrightarrow> names [i] r \<longleftrightarrow> id_col r = c"
  by (auto simp: names_def)

lemma ex_confirm_accepts:
  "authenticated (authCheck ex_env (authorization (ex_confirm entries)))"
  "auth_userId (authCheck ex_env (authorization (ex_confirm entries))) = Some ex_uid"
  "ex_uid \<noteq> []"
  by (simp_all add: ex_confirm_def authCheck_def OUR_AUTH_TOKEN_def ex_env_def truthy_def
      interpolate_def ex_uid_def)

lemma ex_uuid_in:
  "uuid_in ex_uid = Some ex_uid" "uuid_in ex_id = Some ex_id" "uuid_in ex_id_upper = Some ex_id"
  "uuid_in ex_other = Some ex_other" "uuid_in ex_id2 = Some ex_id2"
  by code_simp+

text \<open>
  Claim C2, as the code has it. The update of the confirm phase has no condition on the
  current status, so a second confirm of the same \<open>{imageId, completed}\<close> by the same
  owner matches the record again: the first call returns \<open>updatedCount = 1\<close> and the
  second returns \<open>updatedCount = 1\<close> too. The record is \<open>completed\<close> after each call,
  stamped by that call, and the second call leaves every column of every row as the
  first left it, \<open>completedAt\<close> apart.
\<close>

theorem confirm_twice_same_count:
  assumes "authenticated (authCheck e (authorization req))"
    and "auth_userId (authCheck e (authorization req)) = Some uid" and "uid \<noteq> []"
    and "body req = Typed [\<lparr>imageId = i, upd_status = confirm_completed\<rparr>]"
    and "confirmUploadSchema e [\<lparr>imageId = i, upd_status = confirm_completed\<rparr>]"
    and "distinct (map id_col db)" and "k < length db"
    and "uuid_in i = Some (id_col (db ! k))" and "uuid_in uid = Some (userId (db ! k))"
  shows "json (fst (confirm_POST w e req db))
           = Ok \<lparr>message = ''Images table updated successfully'', updatedCount = 1\<rparr>
       \<and> json (fst (confirm_POST w' e req (snd (confirm_POST w e req db))))
           = Ok \<lparr>message = ''Images table updated successfully'', updatedCount = 1\<rparr>
       \<and> map (\<lambda>r. r\<lparr>completedAt := None\<rparr>)
             (snd (confirm_POST w' e req (snd (confirm_POST w e req db))))
           = map (\<lambda>r. r\<lparr>completedAt := None\<rparr>) (snd (confirm_POST w e req db))
       \<and> snd (confirm_POST w e req db) ! k
           = (db ! k)\<lparr>status := completed, completedAt := Some (clock w 0)\<rparr>
       \<and> snd (confirm_POST w' e req (snd (confirm_POST w e req db))) ! k
           = (db ! k)\<lparr>status := completed, completedAt := Some (clock w' 0)\<rparr>"
proof -
  let ?db1 = "snd (confirm_POST w e req db)"
  have mem: "db ! k \<in> set db" using assms(7) by simp
  have "filter (\<lambda>x. id_col x = id_col (db ! k) \<and> userId x = userId (db ! k)) db = [db ! k]"
    using assms(6) mem by (rule distinct_id_filter)
  then have one: "json (fst (confirm_POST w e req db))
           = Ok \<lparr>message = ''Images table updated successfully'', updatedCount = 1\<rparr>"
    by (simp add: confirm_POST_count [OF assms(1-5,9)] ids_with_def names_single [OF assms(8)])
  have row1: "?db1 ! k = (db ! k)\<lparr>status := completed, completedAt := Some (clock w 0)\<rparr>"
    using assms(8,9)
    by (simp add: confirm_POST_nth [OF assms(1-5,7)] ids_with_def names_def)
  have k1: "k < length ?db1" using assms(7) by (simp add: confirm_POST_length)
  have "snd (confirm_POST w' e req ?db1) ! k
      = (?db1 ! k)\<lparr>status := completed, completedAt := Some (clock w' 0)\<rparr>"
    using assms(8,9)
    by (simp add: confirm_POST_nth [OF assms(1-5) k1] ids_with_def names_def row1)
  then have row2: "snd (confirm_POST w' e req ?db1) ! k
      = (db ! k)\<lparr>status := completed, completedAt := Some (clock w' 0)\<rparr>"
    by (simp add: row1)
  from one row1 row2 confirm_POST_repeat [of w' e req w db] show ?thesis by simp
qed

theorem confirm_twice_same_count_witness:
  "json (fst (confirm_POST ex_world ex_env (ex_confirm [(ex_id, confirm_completed)])
           [ex_image ex_id ex_uid pending]))
       = Ok \<lparr>message = ''Images table updated successfully'', updatedCount = 1\<rparr>
   \<and> json (fst (confirm_POST ex_world ex_env (ex_confirm [(ex_id, confirm_completed)])
        (snd (confirm_POST ex_world ex_env (ex_confirm [(ex_id, confirm_completed)])
                [ex_image ex_id ex_uid pending]))))
       = Ok \<lparr>message = ''Images table updated successfully'', updatedCount = 1\<rparr>
   \<and> snd (confirm_POST ex_world ex_env (ex_confirm [(ex_id, confirm_completed)])
        (snd (confirm_POST ex_world ex_env (ex_confirm [(ex_id, confirm_completed)])
                [ex_image ex_id ex_uid pending]))) ! 0
       = (ex_image ex_id ex_uid completed)\<lparr>completedAt := Some 1000\<rparr>"
proof -
  let ?req = "ex_confirm [(ex_id, confirm_completed)]"
  let ?db = "[ex_image ex_id ex_uid pending]"
  have d: "body ?req = Typed [\<lparr>imageId = ex_id, upd_status = confirm_completed\<rparr>]"
    by (simp add: ex_confirm_def)
  have f: "confirmUploadSchema ex_env [\<lparr>imageId = ex_id, upd_status = confirm_completed\<rparr>]"
    by code_simp
  have g: "distinct (map id_col ?db)" and k: "0 < length ?db" by simp_all
  have i: "uuid_in ex_id = Some (id_col (?db ! 0))"
    and u: "uuid_in ex_uid = Some (userId (?db ! 0))"
    by (simp_all add: ex_image_def ex_uuid_in)
  from confirm_twice_same_count [OF ex_confirm_accepts d f g k i u, of ex_world ex_world]
  show ?thesis by (simp add: ex_image_def ex_world_def)
qed

text \<open>
  Claim C2 as stated fails: after a first confirm has completed the record, the second
  confirm does not return \<open>updatedCount = 0\<close>.
\<close>

theorem confirm_twice_counterexample:
  "json (fst (confirm_POST ex_world ex_env (ex_confirm [(ex_id, confirm_completed)])
               (snd (confirm_POST ex_world ex_env (ex_confirm [(ex_id, confirm_completed)])
                      [ex_image ex_id ex_uid pending]))))
     \<noteq> Ok \<lparr>message = ''Images table updated successfully'', updatedCount = 0\<rparr>"
  by code_simp

text \<open>
  Claim C3, as the code has it. A confirm request gives every record of the caller that
  one of its identifiers names (read as a uuid, so in either case) the requested status
  and a new \<open>completedAt\<close>, whatever the record's current status; where both outcomes
  name the record, \<open>failed\<close> and the second statement's time are what remains. A record
  that no identifier names, or whose owner is not the caller's uuid, is left as it is in
  every column; so is every record when the caller's token is no UUID.
\<close>

theorem confirm_transition_any_status:
  assumes "authenticated (authCheck e (authorization req))"
    and "auth_userId (authCheck e (authorization req)) = Some uid" and "uid \<noteq> []"
    and "body req = Typed updates" and "confirmUploadSchema e updates"
    and "k < length db"
  shows "snd (confirm_POST w e req db) ! k =
     (if uuid_in uid = Some (userId (db ! k))
         \<and> list_ex (\<lambda>u. upd_status u = confirm_failed
                         \<and> uuid_in (imageId u) = Some (id_col (db ! k))) updates
      then (db ! k)\<lparr>status := failed, completedAt := Some (clock w 1)\<rparr>
      else if uuid_in uid = Some (userId (db ! k))
         \<and> list_ex (\<lambda>u. upd_status u = confirm_completed
                         \<and> uuid_in (imageId u) = Some (id_col (db ! k))) updates
      then (db ! k)\<lparr>status := completed, completedAt := Some (clock w 0)\<rparr>
      else db ! k)"
  by (simp add: confirm_POST_nth [OF assms] names_ids_with)

theorem confirm_transition_any_status_witness:
  "snd (confirm_POST ex_world ex_env (ex_confirm [(ex_id_upper, confirm_failed)])
      [ex_image ex_id ex_uid completed, ex_image ex_id2 ex_other pending]) ! 0
     = (ex_image ex_id ex_uid failed)\<lparr>completedAt := Some 1001\<rparr>
   \<and> snd (confirm_POST ex_world ex_env (ex_confirm [(ex_id_upper, confirm_failed)])
      [ex_image ex_id ex_uid completed, ex_image ex_id2 ex_other pending]) ! 1
     = ex_image ex_id2 ex_other pending"
proof -
  let ?req = "ex_confirm [(ex_id_upper, confirm_failed)]"
  let ?db = "[ex_image ex_id ex_uid completed, ex_image ex_id2 ex_other pending]"
  have d: "body ?req = Typed [\<lparr>imageId = ex_id_upper, upd_status = confirm_failed\<rparr>]"
    by (simp add: ex_confirm_def)
  have f: "confirmUploadSchema ex_env [\<lparr>imageId = ex_id_upper, upd_status = confirm_failed\<rparr>]"
    by code_simp
  have k0: "0 < length ?db" and k1: "1 < length ?db" by simp_all
  have o: "ex_other \<noteq> ex_uid" by code_simp
  from confirm_transition_any_status [OF ex_confirm_accepts d f k0, of ex_world]
    confirm_transition_any_status [OF ex_confirm_accepts d f k1, of ex_world] o
  show ?thesis by (simp add: ex_image_def ex_uuid_in ex_world_def)
qed

text \<open>
  Claim C3 as stated fails: a record of the caller that is \<open>deleted\<close>, not \<open>pending\<close>,
  is moved to \<open>completed\<close> by a confirm request.
\<close>

theorem confirm_not_only_pending_counterexample:
  "map status (snd (confirm_POST ex_world ex_env (ex_confirm [(ex_id, confirm_completed)])
      [ex_image ex_id ex_uid deleted])) = [completed]"
  by code_simp

text \<open>
  Claim C9. When one confirm request names a record of the caller under both outcomes,
  the completed update runs first and the failed update second: the record ends
  \<open>failed\<close>, stamped by the second statement, and \<open>updatedCount\<close> counts it once per
  statement, so it is at least 2 and exactly 2 when the request has just those two
  entries.
\<close>

theorem confirm_both_outcomes:
  assumes "authenticated (authCheck e (authorization req))"
    and "auth_userId (authCheck e (authorization req)) = Some uid" and "uid \<noteq> []"
    and "body req = Typed updates" and "confirmUploadSchema e updates"
    and "\<lparr>imageId = i, upd_status = confirm_completed\<rparr> \<in> set updates"
    and "\<lparr>imageId = j, upd_status = confirm_failed\<rparr> \<in> set updates"
    and "k < length db"
    and "uuid_in i = Some (id_col (db ! k))" and "uuid_in j = Some (id_col (db ! k))"
    and "uuid_in uid = Some (userId (db ! k))"
  shows "status (snd (confirm_POST w e req db) ! k) = failed
     \<and> completedAt (snd (confirm_POST w e req db) ! k) = Some (clock w 1)
     \<and> (\<exists>n. json (fst (confirm_POST w e req db))
               = Ok \<lparr>message = ''Images table updated successfully'', updatedCount = n\<rparr>
            \<and> 2 \<le> n
            \<and> (distinct (map id_col db)
                 \<and> updates = [\<lparr>imageId = i, upd_status = confirm_completed\<rparr>,
                               \<lparr>imageId = j, upd_status = confirm_failed\<rparr>]
               \<longrightarrow> n = 2))"
proof -
  let ?u = "userId (db ! k)"
  let ?C = "filter (\<lambda>r. names (ids_with confirm_completed updates) r \<and> userId r = ?u) db"
  let ?F = "filter (\<lambda>r. names (ids_with confirm_failed updates) r \<and> userId r = ?u) db"
  note acc = assms(1-5)
  have nC: "names (ids_with confirm_completed updates) (db ! k)"
    unfolding names_ids_with list_ex_iff using assms(6,9) by force
  have nF: "names (ids_with confirm_failed updates) (db ! k)"
    unfolding names_ids_with list_ex_iff using assms(7,10) by force
  have row: "snd (confirm_POST w e req db) ! k
      = (db ! k)\<lparr>status := failed, completedAt := Some (clock w 1)\<rparr>"
    using nF assms(11) by (simp add: confirm_POST_nth [OF acc assms(8)])
  have mem: "db ! k \<in> set db" using assms(8) by simp
  have "db ! k \<in> set ?C" using mem nC by simp
  then have c1: "1 \<le> length ?C" by (metis length_pos_if_in_set Suc_leI One_nat_def)
  have "db ! k \<in> set ?F" using mem nF by simp
  then have f1: "1 \<le> length ?F" by (metis length_pos_if_in_set Suc_leI One_nat_def)
  have two: "length ?C + length ?F = 2"
    if d: "distinct (map id_col db)"
      and u: "updates = [\<lparr>imageId = i, upd_status = confirm_completed\<rparr>,
                          \<lparr>imageId = j, upd_status = confirm_failed\<rparr>]"
  proof -
    have "filter (\<lambda>x. id_col x = id_col (db ! k) \<and> userId x = userId (db ! k)) db = [db ! k]"
      using d mem by (rule distinct_id_filter)
    then show ?thesis
      by (simp add: u ids_with_def names_single [OF assms(9)] names_single [OF assms(10)])
  qed
  have "json (fst (confirm_POST w e req db))
      = Ok \<lparr>message = ''Images table updated successfully'',
             updatedCount = length ?C + length ?F\<rparr>"
    by (simp add: confirm_POST_count [OF acc assms(11)])
  with c1 f1 two row show ?thesis by auto
qed

theorem confirm_both_outcomes_witness:
  "map status (snd (confirm_POST ex_world ex_env
      (ex_confirm [(ex_id, confirm_completed), (ex_id, confirm_failed)])
      [ex_image ex_id ex_uid pending])) = [failed]
   \<and> json (fst (confirm_POST ex_world ex_env
      (ex_confirm [(ex_id, confirm_completed), (ex_id, confirm_failed)])
      [ex_image ex_id ex_uid pending]))
       = Ok \<lparr>message = ''Images table updated successfully'', updatedCount = 2\<rparr>"
proof -
  let ?req = "ex_confirm [(ex_id, confirm_completed), (ex_id, confirm_failed)]"
  let ?us = "[\<lparr>imageId = ex_id, upd_status = confirm_completed\<rparr>,
              \<lparr>imageId = ex_id, upd_status = confirm_failed\<rparr>]"
  let ?db = "[ex_image ex_id ex_uid pending]"
  have d: "body ?req = Typed ?us"
    by (simp add: ex_confirm_def)
  have f: "confirmUploadSchema ex_env ?us"
    by code_simp
  have g: "\<lparr>imageId = ex_id, upd_status = confirm_completed\<rparr> \<in> set ?us"
    and h: "\<lparr>imageId = ex_id, upd_status = confirm_failed\<rparr> \<in> set ?us" by simp_all
  have k: "0 < length ?db" by simp
  have i: "uuid_in ex_id = Some (id_col (?db ! 0))"
    and u: "uuid_in ex_uid = Some (userId (?db ! 0))"
    by (simp_all add: ex_image_def ex_uuid_in)
  have l: "length (snd (confirm_POST ex_world ex_env ?req ?db)) = 1"
    by (simp add: confirm_POST_length)
  from confirm_both_outcomes [OF ex_confirm_accepts d f g h k i i u, of ex_world] l
  show ?thesis by (auto simp: length_Suc_conv)
qed

section \<open>Delete: look up, remove from storage, then mark\<close>

lemma delete_ids_valid: "deleteImagesSchema e imageIds \<Longrightarrow> list_all is_uuid imageIds"
  by (simp add: deleteImagesSchema_def)

text \<open>Every outcome of the handler but the last leaves the table as it was.\<close>

lemma files_DELETE_cases:
  "snd (files_DELETE w e req db) = db
     \<and> http_status (fst (files_DELETE w e req db)) \<in> {400, 401, 403, 500}
     \<and> (\<forall>d. json (fst (files_DELETE w e req db)) \<noteq> Ok d)
   \<or> (\<exists>uid imageIds found out rows db'.
        authenticated (authCheck e (authorization req))
        \<and> auth_userId (authCheck e (authorization req)) = Some uid \<and> uid \<noteq> []
        \<and> body req = Typed imageIds \<and> deleteImagesSchema e imageIds
        \<and> getImageObjectKeysByUserAndIds db uid imageIds = Some found
        \<and> found \<noteq> []
        \<and> filter (\<lambda>i. i \<notin> set (map key_id found)) imageIds = []
        \<and> deleteFiles w (map key_objectKey found) = Some out
        \<and> (Errors out = None \<or> Errors out = Some [])
        \<and> markImagesAsDeleted (clock w 0) db imageIds uid = Some (rows, db')
        \<and> files_DELETE w e req db =
            (\<lparr>http_status = 200,
              json = Ok \<lparr>del_message = ''Images deleted successfully'',
                deletedCount = length rows,
                deletedImages = map (\<lambda>img. \<lparr>key_id = id_col img, key_objectKey = objectKey img\<rparr>)
                  rows\<rparr>\<rparr>, db'))"
  unfolding files_DELETE_def Let_def
  by (auto simp: truthy_def interpolate_def split: json_body.splits option.splits)

lemma mad_Some_nth:
  assumes "markImagesAsDeleted t db ids uid = Some (rows, db')" and "k < length db"
  shows "length db' = length db"
    and "db' ! k = db ! k
       \<or> (status (db ! k) = completed \<and> uuid_in uid = Some (userId (db ! k))
           \<and> db' ! k = (db ! k)\<lparr>status := deleted, completedAt := Some t\<rparr>)"
  using assms by (auto simp: markImagesAsDeleted_def split: option.splits if_splits)

lemma mad_Some_rows:
  assumes "markImagesAsDeleted t db ids uid = Some (rows, db')" and "r \<in> set rows"
  shows "\<exists>x \<in> set db. id_col x = id_col r \<and> objectKey x = objectKey r
           \<and> uuid_in uid = Some (userId x)"
  using assms by (fastforce simp: markImagesAsDeleted_def split: option.splits)

lemma files_DELETE_outcome:
  obtains
    (refused) "snd (files_DELETE w e req db) = db"
      "http_status (fst (files_DELETE w e req db)) \<in> {400, 401, 403, 500}"
      "\<And>d. json (fst (files_DELETE w e req db)) \<noteq> Ok d"
  | (deleted) uid imageIds rows db' where
      "auth_userId (authCheck e (authorization req)) = Some uid"
      "markImagesAsDeleted (clock w 0) db imageIds uid = Some (rows, db')"
      "files_DELETE w e req db =
            (\<lparr>http_status = 200,
              json = Ok \<lparr>del_message = ''Images deleted successfully'',
                deletedCount = length rows,
                deletedImages = map (\<lambda>img. \<lparr>key_id = id_col img, key_objectKey = objectKey img\<rparr>)
                  rows\<rparr>\<rparr>, db')"
  using files_DELETE_cases [of w e req db] by blast

lemma files_DELETE_length: "length (snd (files_DELETE w e req db)) = length db"
proof (cases rule: files_DELETE_outcome [of w e req db])
  case refused
  then show ?thesis by simp
next
  case (deleted uid imageIds rows db')
  have "length db' = length db"
    using deleted(2) by (auto simp: markImagesAsDeleted_def split: option.splits)
  with deleted(3) show ?thesis by simp
qed

lemma files_DELETE_nth:
  assumes "k < length db"
  shows "snd (files_DELETE w e req db) ! k = db ! k
     \<or> (status (db ! k) = completed
         \<and> (\<exists>uid. auth_userId (authCheck e (authorization req)) = Some uid
               \<and> uuid_in uid = Some (userId (db ! k)))
         \<and> snd (files_DELETE w e req db) ! k
              = (db ! k)\<lparr>status := deleted, completedAt := Some (clock w 0)\<rparr>)"
proof (cases rule: files_DELETE_outcome [of w e req db])
  case refused
  then show ?thesis by simp
next
  case (deleted uid imageIds rows db')
  from mad_Some_nth(2) [OF deleted(2) assms] deleted(1,3) show ?thesis by auto
qed

text \<open>
  Claim C1. In the delete endpoint, when the batch delete of the resolved keys throws or
  reports an error for a key, the handler answers with an error and the table is as it
  was; and whenever the table has changed, the storage delete had returned with no
  per-key error.
\<close>

theorem delete_aborts_on_storage_error:
  assumes "authenticated (authCheck e (authorization req))"
    and "auth_userId (authCheck e (authorization req)) = Some uid"
    and "body req = Typed imageIds"
  shows "(\<forall>found. getImageObjectKeysByUserAndIds db uid imageIds = Some found
            \<and> storage_delete_failed (deleteFiles w (map key_objectKey found))
            \<longrightarrow> snd (files_DELETE w e req db) = db
                \<and> http_status (fst (files_DELETE w e req db)) \<in> {400, 401, 403, 500})
       \<and> (snd (files_DELETE w e req db) \<noteq> db
            \<longrightarrow> (\<exists>found out. getImageObjectKeysByUserAndIds db uid imageIds = Some found
                      \<and> deleteFiles w (map key_objectKey found) = Some out
                      \<and> (Errors out = None \<or> Errors out = Some [])))"
  using files_DELETE_cases [of w e req db] assms
  by (auto simp: storage_delete_failed_def)

theorem delete_aborts_on_storage_error_witness:
  "getImageObjectKeysByUserAndIds [ex_image ex_id ex_uid completed] ex_uid [ex_id]
     = Some [\<lparr>key_id = ex_id, key_objectKey = ex_uid @ ''/'' @ ex_file\<rparr>]
   \<and> storage_delete_failed (deleteFiles ex_failing_storage [ex_uid @ ''/'' @ ex_file])
   \<and> snd (files_DELETE ex_failing_storage ex_env (ex_delete [ex_id])
        [ex_image ex_id ex_uid completed]) = [ex_image ex_id ex_uid completed]
   \<and> http_status (fst (files_DELETE ex_failing_storage ex_env (ex_delete [ex_id])
       [ex_image ex_id ex_uid completed])) = 500"
proof -
  let ?req = "ex_delete [ex_id]"
  let ?db = "[ex_image ex_id ex_uid completed]"
  have a: "authenticated (authCheck ex_env (authorization ?req))" by code_simp
  have b: "auth_userId (authCheck ex_env (authorization ?req)) = Some ex_uid" by code_simp
  have c: "body ?req = Typed [ex_id]" by code_simp
  have d: "getImageObjectKeysByUserAndIds ?db ex_uid [ex_id]
      = Some [\<lparr>key_id = ex_id, key_objectKey = ex_uid @ ''/'' @ ex_file\<rparr>]"
    by code_simp
  have f: "storage_delete_failed (deleteFiles ex_failing_storage [ex_uid @ ''/'' @ ex_file])"
    by code_simp
  have s: "http_status (fst (files_DELETE ex_failing_storage ex_env ?req ?db)) = 500"
    by code_simp
  from delete_aborts_on_storage_error [OF a b c, of ?db ex_failing_storage] d f s
  show ?thesis by simp
qed

lemma to_lower_idem: "to_lower (to_lower c) = to_lower c"
  by (simp add: to_lower_def Let_def)

lemma uuid_in_written_as_stored:
  assumes "list_all is_uuid ids" and "i \<in> set ids" and "names ids r" and "id_col r = i"
  shows "uuid_in i = Some i"
proof -
  from assms(3) obtain j where j: "j \<in> set ids" "uuid_in j = Some (id_col r)"
    by (auto simp: names_def list_ex_iff)
  then have "id_col r = map to_lower j"
    using assms(1) by (simp add: list_all_iff is_uuid_uuid_in)
  then have "map to_lower i = i"
    using assms(4) by (simp add: to_lower_idem)
  then show ?thesis
    using assms(1,2) by (simp add: list_all_iff is_uuid_uuid_in)
qed

lemma found_empty_iff:
  "filter (\<lambda>r. userId r = u \<and> names ids r \<and> status r = completed) db = [] \<longleftrightarrow>
     filter (\<lambda>i. \<not> list_ex (\<lambda>r. userId r = u \<and> uuid_in i = Some (id_col r)
                              \<and> status r = completed) db) ids = ids"
  by (auto simp: filter_empty_conv filter_id_conv list_ex_iff names_def)

lemma missing_eq:
  assumes "list_all is_uuid ids"
  shows "filter (\<lambda>i. i \<notin> set (map key_id (map (\<lambda>r. \<lparr>key_id = id_col r, key_objectKey = objectKey r\<rparr>)
            (filter (\<lambda>r. userId r = u \<and> names ids r \<and> status r = completed) db)))) ids
     = filter (\<lambda>i. \<not> list_ex (\<lambda>r. userId r = u \<and> uuid_in i = Some (id_col r) \<and> id_col r = i
                              \<and> status r = completed) db) ids"
proof (rule filter_cong [OF refl])
  fix i assume i: "i \<in> set ids"
  have "names ids r \<longleftrightarrow> uuid_in i = Some (id_col r)" if "id_col r = i" for r
  proof
    assume "names ids r"
    then have "uuid_in i = Some i" by (rule uuid_in_written_as_stored [OF assms i _ that])
    with that show "uuid_in i = Some (id_col r)" by simp
  next
    assume "uuid_in i = Some (id_col r)"
    with i show "names ids r" by (auto simp: names_def list_ex_iff)
  qed
  then show "(i \<notin> set (map key_id (map (\<lambda>r. \<lparr>key_id = id_col r, key_objectKey = objectKey r\<rparr>)
            (filter (\<lambda>r. userId r = u \<and> names ids r \<and> status r = completed) db))))
      = (\<not> list_ex (\<lambda>r. userId r = u \<and> uuid_in i = Some (id_col r) \<and> id_col r = i
                              \<and> status r = completed) db)"
    by (auto simp: list_ex_iff)
qed

lemma files_DELETE_forbidden:
  assumes "authenticated (authCheck e (authorization req))"
    and "auth_userId (authCheck e (authorization req)) = Some uid" and "uid \<noteq> []"
    and "body req = Typed imageIds" and "deleteImagesSchema e imageIds"
    and "uuid_in uid = Some u"
    and "offending = filter (\<lambda>i. \<not> list_ex (\<lambda>r. userId r = u \<and> uuid_in i = Some (id_col r)
                                \<and> status r = completed) db) imageIds"
    and "offending \<noteq> []"
  shows "files_DELETE w e req db =
      (\<lparr>http_status = 403,
        json = (if offending = imageIds
                then Error ''No images found or images do not belong to user''
                else MissingImages ''Some images not found or do not belong to user''
                       (filter (\<lambda>i. \<not> list_ex (\<lambda>r. userId r = u \<and> uuid_in i = Some (id_col r)
                                  \<and> id_col r = i \<and> status r = completed) db) imageIds))\<rparr>,
       db)"
proof -
  note v = delete_ids_valid [OF assms(5)]
  define found where "found = map (\<lambda>r. \<lparr>key_id = id_col r, key_objectKey = objectKey r\<rparr>)
             (filter (\<lambda>r. userId r = u \<and> names imageIds r \<and> status r = completed) db)"
  define missing where "missing = filter (\<lambda>i. \<not> list_ex (\<lambda>r. userId r = u
      \<and> uuid_in i = Some (id_col r) \<and> id_col r = i \<and> status r = completed) db) imageIds"
  have sel: "getImageObjectKeysByUserAndIds db uid imageIds = Some found"
    by (simp add: keys_readable [OF v assms(6)] found_def)
  have m: "filter (\<lambda>i. i \<notin> set (map key_id found)) imageIds = missing"
    unfolding found_def missing_def by (rule missing_eq [OF v])
  have e: "found = [] \<longleftrightarrow> offending = imageIds"
    using found_empty_iff [of u imageIds db] by (simp add: found_def assms(7))
  have "set offending \<subseteq> set missing"
    by (auto simp: assms(7) missing_def list_ex_iff)
  with assms(8) have ne: "missing \<noteq> []" by auto
  show ?thesis
    using assms(1-5) ne
    by (simp add: files_DELETE_def Let_def truthy_def interpolate_def sel m e
        flip: missing_def del: set_map)
qed

lemma files_DELETE_unreadable_owner:
  assumes "authenticated (authCheck e (authorization req))"
    and "auth_userId (authCheck e (authorization req)) = Some uid" and "uid \<noteq> []"
    and "body req = Typed imageIds" and "deleteImagesSchema e imageIds"
    and "uuid_in uid = None"
  shows "files_DELETE w e req db = (\<lparr>http_status = 500, json = Error ''Internal server error''\<rparr>, db)"
  using assms(1-5)
  by (simp add: files_DELETE_def Let_def truthy_def interpolate_def
      keys_unreadable_owner [OF assms(6)])

text \<open>
  Claim C4, as the code has it. A delete request never turns a record \<open>deleted\<close> that
  was not \<open>completed\<close> before. A valid request in which some identifier does not resolve
  to a completed record of the caller changes no record and is answered 403 (500 when
  the caller's token is no UUID, since the lookup throws). When no identifier resolved
  the answer is the plain message without identifiers; otherwise it lists every requested
  identifier that is not, as written, the identifier of a resolved record: the
  unresolved ones, and also a resolved one written in another form than the database
  prints (in upper case, say).
\<close>

theorem delete_only_owned_completed:
  "(\<forall>k < length db. status (snd (files_DELETE w e req db) ! k) = deleted
        \<longrightarrow> status (db ! k) = deleted \<or> status (db ! k) = completed)
   \<and> (authenticated (authCheck e (authorization req))
       \<and> auth_userId (authCheck e (authorization req)) = Some uid \<and> uid \<noteq> []
       \<and> body req = Typed imageIds \<and> deleteImagesSchema e imageIds
      \<longrightarrow>
       (uuid_in uid = None
          \<longrightarrow> files_DELETE w e req db
                = (\<lparr>http_status = 500, json = Error ''Internal server error''\<rparr>, db))
       \<and> (uuid_in uid = Some u
           \<and> offending = filter (\<lambda>i. \<not> list_ex (\<lambda>r. userId r = u \<and> uuid_in i = Some (id_col r)
                                \<and> status r = completed) db) imageIds
           \<and> offending \<noteq> []
          \<longrightarrow> files_DELETE w e req db =
           (\<lparr>http_status = 403,
             json = (if offending = imageIds
                     then Error ''No images found or images do not belong to user''
                     else MissingImages ''Some images not found or do not belong to user''
                       (filter (\<lambda>i. \<not> list_ex (\<lambda>r. userId r = u \<and> uuid_in i = Some (id_col r)
                                  \<and> id_col r = i \<and> status r = completed) db) imageIds))\<rparr>,
            db)
            \<and> set offending \<subseteq> set (filter (\<lambda>i. \<not> list_ex (\<lambda>r. userId r = u
                  \<and> uuid_in i = Some (id_col r) \<and> id_col r = i \<and> status r = completed) db)
                  imageIds)))"
proof (intro conjI allI impI)
  fix k assume "k < length db" and "status (snd (files_DELETE w e req db) ! k) = deleted"
  then show "status (db ! k) = deleted \<or> status (db ! k) = completed"
    using files_DELETE_nth [of k db w e req] by auto
next
  assume "authenticated (authCheck e (authorization req))
       \<and> auth_userId (authCheck e (authorization req)) = Some uid \<and> uid \<noteq> []
       \<and> body req = Typed imageIds \<and> deleteImagesSchema e imageIds"
    and "uuid_in uid = None"
  then show "files_DELETE w e req db
                = (\<lparr>http_status = 500, json = Error ''Internal server error''\<rparr>, db)"
    by (elim conjE) (rule files_DELETE_unreadable_owner)
next
  assume "authenticated (authCheck e (authorization req))
       \<and> auth_userId (authCheck e (authorization req)) = Some uid \<and> uid \<noteq> []
       \<and> body req = Typed imageIds \<and> deleteImagesSchema e imageIds"
    and "uuid_in uid = Some u
           \<and> offending = filter (\<lambda>i. \<not> list_ex (\<lambda>r. userId r = u \<and> uuid_in i = Some (id_col r)
                                \<and> status r = completed) db) imageIds
           \<and> offending \<noteq> []"
  then show "files_DELETE w e req db =
           (\<lparr>http_status = 403,
             json = (if offending = imageIds
                     then Error ''No images found or images do not belong to user''
                     else MissingImages ''Some images not found or do not belong to user''
                       (filter (\<lambda>i. \<not> list_ex (\<lambda>r. userId r = u \<and> uuid_in i = Some (id_col r)
                                  \<and> id_col r = i \<and> status r = completed) db) imageIds))\<rparr>,
            db)"
    by (elim conjE) (rule files_DELETE_forbidden)
next
  assume "uuid_in uid = Some u
           \<and> offending = filter (\<lambda>i. \<not> list_ex (\<lambda>r. userId r = u \<and> uuid_in i = Some (id_col r)
                                \<and> status r = completed) db) imageIds
           \<and> offending \<noteq> []"
  then show "set offending \<subseteq> set (filter (\<lambda>i. \<not> list_ex (\<lambda>r. userId r = u
                  \<and> uuid_in i = Some (id_col r) \<and> id_col r = i \<and> status r = completed) db)
                  imageIds)"
    by (auto simp: list_ex_iff)
qed

theorem delete_only_owned_completed_witness:
  "files_DELETE ex_world ex_env (ex_delete [ex_id_upper, ex_id2])
      [ex_image ex_id ex_uid completed, ex_image ex_id2 ex_uid pending]
    = (\<lparr>http_status = 403,
        json = MissingImages ''Some images not found or do not belong to user''
                 [ex_id_upper, ex_id2]\<rparr>,
       [ex_image ex_id ex_uid completed, ex_image ex_id2 ex_uid pending])"
proof -
  let ?req = "ex_delete [ex_id_upper, ex_id2]"
  let ?db = "[ex_image ex_id ex_uid completed, ex_image ex_id2 ex_uid pending]"
  have a: "authenticated (authCheck ex_env (authorization ?req))" by code_simp
  have b: "auth_userId (authCheck ex_env (authorization ?req)) = Some ex_uid" by code_simp
  have c: "ex_uid \<noteq> []" by code_simp
  have d: "body ?req = Typed [ex_id_upper, ex_id2]" by code_simp
  have f: "deleteImagesSchema ex_env [ex_id_upper, ex_id2]" by code_simp
  have g: "[ex_id2] = filter (\<lambda>i. \<not> list_ex (\<lambda>r. userId r = ex_uid
      \<and> uuid_in i = Some (id_col r) \<and> status r = completed) ?db) [ex_id_upper, ex_id2]"
    by code_simp
  have m: "filter (\<lambda>i. \<not> list_ex (\<lambda>r. userId r = ex_uid \<and> uuid_in i = Some (id_col r)
      \<and> id_col r = i \<and> status r = completed) ?db) [ex_id_upper, ex_id2] = [ex_id_upper, ex_id2]"
    by code_simp
  have h: "[ex_id2] \<noteq> []" by simp
  have n: "[ex_id2] \<noteq> [ex_id_upper, ex_id2]" by simp
  from delete_only_owned_completed [of ?db ex_world ex_env ?req ex_uid "[ex_id_upper, ex_id2]"
      ex_uid "[ex_id2]"]
    a b c d f g h n ex_uuid_in(1)
  show ?thesis by (simp only: m) simp
qed

text \<open>
  Claim C4 as stated fails in one point: a delete request for a single \<open>pending\<close>
  record is answered 403 with the message alone; the answer does not identify the
  offending identifier.
\<close>

theorem delete_forbidden_without_ids_counterexample:
  "fst (files_DELETE ex_world ex_env (ex_delete [ex_id]) [ex_image ex_id ex_uid pending])
     = \<lparr>http_status = 403, json = Error ''No images found or images do not belong to user''\<rparr>"
  by code_simp

section \<open>Ownership\<close>

lemma confirm_POST_foreign_row:
  assumes "auth_userId (authCheck e (authorization req)) = Some u"
    and "k < length db" and "uuid_in u \<noteq> Some (userId (db ! k))"
  shows "snd (confirm_POST w e req db) ! k = db ! k"
proof (cases rule: confirm_POST_cases [of e req])
  case rejected
  then have "snd (confirm_POST w e req db) = db"
    using confirm_POST_rejected [OF rejected, of w db w db] by (metis snd_conv)
  then show ?thesis by simp
next
  case (unreadable uid us)
  then show ?thesis by (simp add: confirm_POST_unreadable_owner [OF unreadable])
next
  case (run uid us c)
  then have "uid = u" using assms(1) by simp
  with assms(3) show ?thesis
    by (simp add: confirm_POST_nth [OF run(1-5) assms(2)])
qed

lemma files_DELETE_foreign_row:
  assumes "auth_userId (authCheck e (authorization req)) = Some u"
    and "k < length db" and "uuid_in u \<noteq> Some (userId (db ! k))"
  shows "snd (files_DELETE w e req db) ! k = db ! k"
  using files_DELETE_nth [OF assms(2), of w e req] assms(1,3) by auto

lemma files_DELETE_deleted_ids:
  assumes "auth_userId (authCheck e (authorization req)) = Some u"
    and "json (fst (files_DELETE w e req db)) = Ok d"
    and "i \<in> key_id ` set (deletedImages d)"
  shows "\<exists>r \<in> set db. id_col r = i \<and> uuid_in u = Some (userId r)"
proof (cases rule: files_DELETE_outcome [of w e req db])
  case refused
  with assms(2) show ?thesis by simp
next
  case (deleted uid imageIds rows db')
  then have "uid = u" using assms(1) by simp
  from deleted(3) assms(2) have "deletedImages d
      = map (\<lambda>img. \<lparr>key_id = id_col img, key_objectKey = objectKey img\<rparr>) rows"
    by auto
  with assms(3) obtain r where "r \<in> set rows" "id_col r = i" by auto
  with mad_Some_rows [OF deleted(2)] \<open>uid = u\<close> show ?thesis by metis
qed

text \<open>
  Claim C8. For a confirm or a delete request of caller \<open>u\<close>, a record whose owner is
  not the uuid of \<open>u\<close> is the same row afterwards; the rows the two updates return all
  belong to \<open>u\<close>, and the identifiers a delete reports do not include that record's.
\<close>

theorem ownership_isolation:
  assumes "auth_userId (authCheck e h) = Some u"
    and "authorization creq = h" and "authorization dreq = h"
    and "k < length db" and "uuid_in u \<noteq> Some (userId (db ! k))"
  shows "snd (confirm_POST w e creq db) ! k = db ! k
       \<and> snd (files_DELETE w e dreq db) ! k = db ! k
       \<and> (\<forall>rows db'. updateImageStatusBatch t db ids st u = Some (rows, db')
             \<longrightarrow> list_all (\<lambda>r. uuid_in u = Some (userId r)) rows \<and> db' ! k = db ! k)
       \<and> (\<forall>rows db'. markImagesAsDeleted t db ids u = Some (rows, db')
             \<longrightarrow> list_all (\<lambda>r. uuid_in u = Some (userId r)) rows \<and> db' ! k = db ! k)
       \<and> (\<forall>d. distinct (map id_col db) \<and> json (fst (files_DELETE w e dreq db)) = Ok d
             \<longrightarrow> id_col (db ! k) \<notin> key_id ` set (deletedImages d))"
proof -
  have c: "auth_userId (authCheck e (authorization creq)) = Some u"
    and d: "auth_userId (authCheck e (authorization dreq)) = Some u"
    using assms(1-3) by simp_all
  have "id_col (db ! k) \<notin> key_id ` set (deletedImages r)"
    if dist: "distinct (map id_col db)" and ok: "json (fst (files_DELETE w e dreq db)) = Ok r" for r
  proof
    assume "id_col (db ! k) \<in> key_id ` set (deletedImages r)"
    then obtain x where x: "x \<in> set db" "id_col x = id_col (db ! k)" "uuid_in u = Some (userId x)"
      using files_DELETE_deleted_ids [OF d ok] by blast
    moreover have "db ! k \<in> set db" using assms(4) by simp
    ultimately have "x = db ! k" using dist by (metis distinct_id_unique)
    with x(3) assms(5) show False by simp
  qed
  moreover have "db' ! k = db ! k"
    if "updateImageStatusBatch t db ids st u = Some (rows, db')" for rows db'
    using that assms(4,5)
    by (auto simp: updateImageStatusBatch_def split: option.splits)
  moreover have "db' ! k = db ! k"
    if "markImagesAsDeleted t db ids u = Some (rows, db')" for rows db'
    using mad_Some_nth(2) [OF that assms(4)] assms(5) by auto
  ultimately show ?thesis
    using confirm_POST_foreign_row [OF c assms(4,5)] files_DELETE_foreign_row [OF d assms(4,5)]
    by (auto dest: usb_Some_owner mad_Some_owner)
qed

theorem ownership_isolation_witness:
  "snd (confirm_POST ex_world ex_env (ex_confirm [(ex_id2, confirm_failed)])
         [ex_image ex_id ex_uid pending, ex_image ex_id2 ex_other pending]) ! 1
     = ex_image ex_id2 ex_other pending
   \<and> snd (files_DELETE ex_world ex_env (ex_delete [ex_id, ex_id2])
         [ex_image ex_id ex_uid completed, ex_image ex_id2 ex_other completed]) ! 1
     = ex_image ex_id2 ex_other completed"
proof -
  let ?h = "Some (''Bearer '' @ ex_uid)"
  have a: "auth_userId (authCheck ex_env ?h) = Some ex_uid" by code_simp
  have b: "authorization (ex_confirm [(ex_id2, confirm_failed)]) = ?h"
    by (simp add: ex_confirm_def)
  have c: "authorization (ex_delete [ex_id, ex_id2]) = ?h" by (simp add: ex_delete_def)
  have "ex_other \<noteq> ex_uid" by code_simp
  then have o: "uuid_in ex_uid \<noteq> Some (userId (ex_image ex_id2 ex_other st))" for st
    by (simp add: ex_image_def ex_uuid_in)
  have o1: "uuid_in ex_uid \<noteq> Some (userId
      ([ex_image ex_id ex_uid pending, ex_image ex_id2 ex_other pending] ! 1))"
    using o by simp
  have o2: "uuid_in ex_uid \<noteq> Some (userId
      ([ex_image ex_id ex_uid completed, ex_image ex_id2 ex_other completed] ! 1))"
    using o by simp
  have k1: "1 < length [ex_image ex_id ex_uid pending, ex_image ex_id2 ex_other pending]"
    and k2: "1 < length [ex_image ex_id ex_uid completed, ex_image ex_id2 ex_other completed]"
    by simp_all
  from ownership_isolation [OF a b c k1 o1, where w = ex_world]
    ownership_isolation [OF a b c k2 o2, where w = ex_world]
  show ?thesis by simp
qed

section \<open>Presign: sign every item, then insert the batch\<close>

lemma those_map_None_iff: "those (map f xs) = None \<longleftrightarrow> list_ex (\<lambda>x. f x = None) xs"
  by (induction xs) (auto split: option.splits)

lemma those_map_Some:
  "those (map f xs) = Some ys \<Longrightarrow> map Some ys = map f xs"
  by (induction xs arbitrary: ys) (auto split: option.splits)

lemma those_map_Some_length: "those (map f xs) = Some ys \<Longrightarrow> length ys = length xs"
  by (drule those_map_Some) (metis length_map)

lemma those_map_Some_nth:
  "those (map f xs) = Some ys \<Longrightarrow> i < length xs \<Longrightarrow> f (xs ! i) = Some (ys ! i)"
  by (frule those_map_Some_length, drule those_map_Some) (metis nth_map)

lemma presign_item_None_iff:
  "presign_item w e uid (i, img) = None \<longleftrightarrow>
     getSignedUrlForUpload w (uid @ ''/'' @ fileId img) (fileType img) (fileSize img) = None"
  by (simp add: presign_item_def Let_def split: option.splits)

lemma presign_item_Some:
  assumes "presign_item w e uid (i, img) = Some p"
  shows "pre_objectKey p = uid @ ''/'' @ fileId img"
    and "pre_publicFileUrl p = interpolate (env_R2_PUBLIC_BASE_URL e) @ ''/'' @ uid @ ''/'' @ fileId img"
    and "getSignedUrlForUpload w (uid @ ''/'' @ fileId img) (fileType img) (fileSize img)
           = Some (pre_presignedUrl p)"
    and "pre_expiresAt p = map_option (\<lambda>s. clock w i + s * 1000) (IMAGE_EXPIRATION_SECONDS e)"
    and "pre_fileType p = fileType img" and "pre_fileSize p = fileSize img"
  using assms by (auto simp: presign_item_def Let_def split: option.splits)

lemma list_ex_enumerate_snd: "list_ex (\<lambda>p. Q (snd p)) (enumerate n xs) = list_ex Q xs"
  by (induction xs arbitrary: n) simp_all

lemma presign_all_None_iff:
  "those (map (presign_item w e uid) (enumerate 0 images)) = None \<longleftrightarrow>
     list_ex (\<lambda>img. getSignedUrlForUpload w (uid @ ''/'' @ fileId img) (fileType img)
                       (fileSize img) = None) images"
proof -
  let ?G = "\<lambda>img. getSignedUrlForUpload w (uid @ ''/'' @ fileId img) (fileType img)
                       (fileSize img) = None"
  have "presign_item w e uid p = None \<longleftrightarrow> ?G (snd p)" for p
    using presign_item_None_iff [of w e uid "fst p" "snd p"] by simp
  then have "list_ex (\<lambda>p. presign_item w e uid p = None) (enumerate 0 images)
      \<longleftrightarrow> list_ex (\<lambda>p. ?G (snd p)) (enumerate 0 images)"
    by simp
  also have "\<dots> \<longleftrightarrow> list_ex ?G images"
    by (rule list_ex_enumerate_snd)
  finally have "list_ex (\<lambda>p. presign_item w e uid p = None) (enumerate 0 images)
      \<longleftrightarrow> list_ex ?G images" .
  then show ?thesis by (simp only: those_map_None_iff)
qed

lemma presign_all_Some_nth:
  assumes "those (map (presign_item w e uid) (enumerate 0 images)) = Some ps"
    and "i < length images"
  shows "presign_item w e uid (i, images ! i) = Some (ps ! i)"
  using those_map_Some_nth [OF assms(1), of i] assms(2) by (simp add: nth_enumerate_eq)

lemma presign_all_Some_length:
  "those (map (presign_item w e uid) (enumerate 0 images)) = Some ps \<Longrightarrow> length ps = length images"
  by (drule those_map_Some_length) simp

lemma createImageRecordsBatch_Some:
  assumes "createImageRecordsBatch w t db imageData = Some (rows, db')"
  shows "db' = db @ rows" and "length rows = length imageData"
    and "list_all (\<lambda>r. status r = pending) rows"
    and "map objectKey rows = map new_objectKey imageData"
proof -
  let ?new = "map (\<lambda>d. \<lparr>new_userId = new_userId d, new_objectKey = new_objectKey d,
              new_fileUrl = new_fileUrl d, new_mimeType = new_mimeType d,
              new_sizeBytes = new_sizeBytes d, new_status = pending\<rparr>) imageData"
  from assms obtain owners where o: "uuid_params (map new_userId ?new) = Some owners"
    and rows: "rows = map (\<lambda>(j, n, owner).
                     \<lparr>id_col = gen_random_uuid w (length db + j), userId = owner,
                      objectKey = new_objectKey n, fileUrl = new_fileUrl n,
                      mimeType = new_mimeType n, sizeBytes = new_sizeBytes n,
                      status = new_status n, createdAt = t, completedAt = None\<rparr>)
                     (enumerate 0 (zip ?new owners))"
    and db': "db' = db @ rows"
    by (auto simp: createImageRecordsBatch_def Let_def split: option.splits if_splits)
  have len: "length owners = length imageData"
    using those_map_Some_length [OF o [unfolded uuid_params_def]] by simp
  show "db' = db @ rows" by (rule db')
  show "length rows = length imageData" by (simp add: rows len)
  show "list_all (\<lambda>r. status r = pending) rows"
    by (auto simp: rows list_all_iff in_set_enumerate_eq nth_zip len)
  have "map objectKey rows = map new_objectKey (map fst (map snd (enumerate 0 (zip ?new owners))))"
    unfolding rows map_map by (rule map_cong) auto
  then show "map objectKey rows = map new_objectKey imageData"
    by (simp add: len comp_def)
qed

lemma presign_POST_accepted:
  assumes "auth_userId (authCheck e (authorization req)) = Some uid" and "uid \<noteq> []"
    and "body req = Typed images" and "presignRequestSchema e images"
  shows "presign_POST w e req db =
     (case those (map (presign_item w e uid) (enumerate 0 images)) of
        None \<Rightarrow> (\<lparr>http_status = 500, json = Error ''Internal server error''\<rparr>, db)
      | Some ps \<Rightarrow>
          (case createImageRecordsBatch w (clock w (length images)) db (imageData_of uid ps) of
             None \<Rightarrow> (\<lparr>http_status = 500, json = Error ''Internal server error''\<rparr>, db)
           | Some (imageRecords, db') \<Rightarrow>
               (\<lparr>http_status = 200, json = Ok (results_of ps imageRecords)\<rparr>, db')))"
  using assms
  by (simp add: presign_POST_def truthy_def interpolate_def Let_def)

lemma presign_POST_rejected:
  assumes "\<not> (truthy (auth_userId (authCheck e (authorization req)))
              \<and> (\<exists>images. body req = Typed images \<and> presignRequestSchema e images))"
  shows "snd (presign_POST w e req db) = db"
    and "http_status (fst (presign_POST w e req db)) \<in> {400, 401, 500}"
    and "json (fst (presign_POST w e req db)) \<noteq> Ok r"
  using assms by (auto simp: presign_POST_def Let_def split: json_body.splits)

lemma map_pre_objectKey:
  assumes "those (map (presign_item w e uid) (enumerate 0 images)) = Some ps"
  shows "map pre_objectKey ps = map (\<lambda>img. uid @ ''/'' @ fileId img) images"
proof (rule nth_equalityI)
  show "length (map pre_objectKey ps) = length (map (\<lambda>img. uid @ ''/'' @ fileId img) images)"
    using presign_all_Some_length [OF assms] by simp
next
  fix i assume "i < length (map pre_objectKey ps)"
  then have i: "i < length images" using presign_all_Some_length [OF assms] by simp
  then have "pre_objectKey (ps ! i) = uid @ ''/'' @ fileId (images ! i)"
    using presign_item_Some(1) [OF presign_all_Some_nth [OF assms i]] by simp
  with i show "map pre_objectKey ps ! i = map (\<lambda>img. uid @ ''/'' @ fileId img) images ! i"
    using presign_all_Some_length [OF assms] by simp
qed

text \<open>An accepted request ends in one of two ways.\<close>

lemma presign_POST_outcome:
  assumes "auth_userId (authCheck e (authorization req)) = Some uid" and "uid \<noteq> []"
    and "body req = Typed images" and "presignRequestSchema e images"
  shows "(snd (presign_POST w e req db) = db
          \<and> fst (presign_POST w e req db)
               = \<lparr>http_status = 500, json = Error ''Internal server error''\<rparr>)
       \<or> (\<exists>ps rows.
            those (map (presign_item w e uid) (enumerate 0 images)) = Some ps
            \<and> presign_POST w e req db =
                (\<lparr>http_status = 200, json = Ok (results_of ps rows)\<rparr>, db @ rows)
            \<and> length rows = length images
            \<and> list_all (\<lambda>r. status r = pending) rows
            \<and> map objectKey rows = map (\<lambda>img. uid @ ''/'' @ fileId img) images)"
proof (cases "those (map (presign_item w e uid) (enumerate 0 images))")
  case None
  then show ?thesis by (simp add: presign_POST_accepted [OF assms])
next
  case (Some ps)
  show ?thesis
  proof (cases "createImageRecordsBatch w (clock w (length images)) db (imageData_of uid ps)")
    case None
    with Some show ?thesis by (simp add: presign_POST_accepted [OF assms])
  next
    case (Some a)
    then obtain rows db' where c: "createImageRecordsBatch w (clock w (length images)) db
        (imageData_of uid ps) = Some (rows, db')"
      by (cases a) simp
    note f = createImageRecordsBatch_Some [OF c]
    have len: "length ps = length images"
      using \<open>those _ = Some ps\<close> by (rule presign_all_Some_length)
    have "map objectKey rows = map pre_objectKey ps"
      using f(4) by (simp add: imageData_of_def comp_def)
    then have keys: "map objectKey rows = map (\<lambda>img. uid @ ''/'' @ fileId img) images"
      using map_pre_objectKey [OF \<open>those _ = Some ps\<close>] by simp
    have "presign_POST w e req db =
                (\<lparr>http_status = 200, json = Ok (results_of ps rows)\<rparr>, db @ rows)"
      using \<open>those _ = Some ps\<close> c f(1) by (simp add: presign_POST_accepted [OF assms])
    moreover have "length rows = length images"
      using f(2) len by (simp add: imageData_of_def)
    ultimately show ?thesis
      using \<open>those _ = Some ps\<close> f(3) keys by blast
  qed
qed

lemma parseInt_300: "parseInt ''300'' = Some 300"
  by code_simp

lemma IMAGE_EXPIRATION_SECONDS_default:
  "env_NEXT_PUBLIC_MAX_IMAGE_SIZE_KB e = None \<Longrightarrow> IMAGE_EXPIRATION_SECONDS e = Some 300"
  by (simp add: IMAGE_EXPIRATION_SECONDS_def env_or_def parseInt_300)

lemma ex_accepts:
  "auth_userId (authCheck ex_env (authorization (ex_presign images))) = Some ex_uid"
  "ex_uid \<noteq> []"
  "body (ex_presign images) = Typed images"
  by (simp_all add: ex_presign_def authCheck_def OUR_AUTH_TOKEN_def ex_env_def truthy_def
      interpolate_def ex_uid_def)

text \<open>
  Claim C5. For a valid presign request of \<open>k\<close> items: when the signer fails for one
  item the endpoint answers 500 and no record is created; and in every case either no
  record is created, or exactly \<open>k\<close> records are appended to the table, all \<open>pending\<close>.
  The insert is one statement, which the database runs entirely or not at all.
\<close>

theorem presign_all_or_nothing:
  assumes "auth_userId (authCheck e (authorization req)) = Some uid" and "uid \<noteq> []"
    and "body req = Typed images" and "presignRequestSchema e images"
  shows "(list_ex (\<lambda>img. getSignedUrlForUpload w (uid @ ''/'' @ fileId img) (fileType img)
                      (fileSize img) = None) images
          \<longrightarrow> snd (presign_POST w e req db) = db
              \<and> http_status (fst (presign_POST w e req db)) = 500)
       \<and> (snd (presign_POST w e req db) = db
              \<and> http_status (fst (presign_POST w e req db)) = 500
          \<or> (\<exists>rows. snd (presign_POST w e req db) = db @ rows
                \<and> length rows = length images
                \<and> list_all (\<lambda>r. status r = pending) rows
                \<and> http_status (fst (presign_POST w e req db)) = 200))"
proof -
  have "snd (presign_POST w e req db) = db \<and> http_status (fst (presign_POST w e req db)) = 500"
    if "list_ex (\<lambda>img. getSignedUrlForUpload w (uid @ ''/'' @ fileId img) (fileType img)
                      (fileSize img) = None) images"
  proof -
    from that have "those (map (presign_item w e uid) (enumerate 0 images)) = None"
      by (simp only: presign_all_None_iff)
    then show ?thesis by (simp add: presign_POST_accepted [OF assms])
  qed
  moreover from presign_POST_outcome [OF assms, of w db]
  have "snd (presign_POST w e req db) = db
              \<and> http_status (fst (presign_POST w e req db)) = 500
          \<or> (\<exists>rows. snd (presign_POST w e req db) = db @ rows
                \<and> length rows = length images
                \<and> list_all (\<lambda>r. status r = pending) rows
                \<and> http_status (fst (presign_POST w e req db)) = 200)"
    by (elim disjE exE conjE) simp_all
  ultimately show ?thesis by blast
qed

theorem presign_all_or_nothing_witness:
  "snd (presign_POST ex_failing_signer ex_env (ex_presign [ex_single]) []) = []
   \<and> http_status (fst (presign_POST ex_failing_signer ex_env (ex_presign [ex_single]) [])) = 500
   \<and> map status (snd (presign_POST ex_world ex_env (ex_presign [ex_single, ex_single]) []))
       = [pending, pending]"
proof -
  have v: "presignRequestSchema ex_env [ex_single]" by code_simp
  have g: "list_ex (\<lambda>img. getSignedUrlForUpload ex_failing_signer (ex_uid @ ''/'' @ fileId img)
             (fileType img) (fileSize img) = None) [ex_single]"
    by (simp add: getSignedUrlForUpload_def ex_failing_signer_def)
  have s: "map status (snd (presign_POST ex_world ex_env (ex_presign [ex_single, ex_single]) []))
       = [pending, pending]"
    by code_simp
  from presign_all_or_nothing [OF ex_accepts v, of ex_failing_signer "[]"] g s
  show ?thesis by simp
qed

text \<open>
  Claim C6, evaluated on the code. With \<open>NEXT_PUBLIC_MAX_IMAGE_SIZE_KB\<close> unset, every
  result of a successful presign request reports \<open>expiresAt\<close> as the clock plus 300
  seconds, while the URL in the same result was signed for 3600 seconds.
\<close>

theorem presign_expiresAt_uses_300_seconds:
  assumes "auth_userId (authCheck e (authorization req)) = Some uid" and "uid \<noteq> []"
    and "body req = Typed images" and "presignRequestSchema e images"
    and "env_NEXT_PUBLIC_MAX_IMAGE_SIZE_KB e = None"
    and "json (fst (presign_POST w e req db)) = Ok results"
    and "i < length images"
  shows "length results = length images
       \<and> res_expiresAt (results ! i) = Some (clock w i + 300 * 1000)
       \<and> res_expiresAt (results ! i) \<noteq> Some (clock w i + 3600 * 1000)
       \<and> s3_getSignedUrl w (res_objectKey (results ! i)) (fileType (images ! i))
            (fileSize (images ! i)) 3600 = Some (res_presignedUrl (results ! i))"
proof -
  from presign_POST_outcome [OF assms(1-4), of w db] assms(6)
  obtain ps rows where ps: "those (map (presign_item w e uid) (enumerate 0 images)) = Some ps"
    and res: "results = results_of ps rows"
    by auto
  have len: "length ps = length images" using ps by (rule presign_all_Some_length)
  note item = presign_item_Some [OF presign_all_Some_nth [OF ps assms(7)]]
  have r: "results ! i = \<lparr>res_objectKey = pre_objectKey (ps ! i),
                    res_presignedUrl = pre_presignedUrl (ps ! i),
                    res_publicFileUrl = pre_publicFileUrl (ps ! i),
                    res_imageId = id_col (rows ! i),
                    res_expiresAt = pre_expiresAt (ps ! i)\<rparr>"
    using assms(7) len by (simp add: res results_of_def nth_enumerate_eq)
  have "res_expiresAt (results ! i) = Some (clock w i + 300 * 1000)"
    by (simp add: r item(4) IMAGE_EXPIRATION_SECONDS_default [OF assms(5)])
  moreover have "s3_getSignedUrl w (res_objectKey (results ! i)) (fileType (images ! i))
            (fileSize (images ! i)) 3600 = Some (res_presignedUrl (results ! i))"
    using item(3) by (simp add: r item(1) getSignedUrlForUpload_def)
  moreover have "length results = length images" by (simp add: res results_of_def len)
  ultimately show ?thesis by simp
qed

theorem presign_expiresAt_uses_300_seconds_witness:
  "json (fst (presign_POST ex_world ex_env (ex_presign [ex_single]) []))
     = Ok [\<lparr>res_objectKey = ex_uid @ ''/'' @ ex_file,
            res_presignedUrl = ''https://r2.example/'' @ ex_uid @ ''/'' @ ex_file,
            res_publicFileUrl = ''https://cdn.example/'' @ ex_uid @ ''/'' @ ex_file,
            res_imageId = ex_id, res_expiresAt = Some 301000\<rparr>]
   \<and> s3_getSignedUrl ex_world (ex_uid @ ''/'' @ ex_file) ''image/webp'' 500000 3600
       = Some (''https://r2.example/'' @ ex_uid @ ''/'' @ ex_file)"
proof -
  let ?results = "[\<lparr>res_objectKey = ex_uid @ ''/'' @ ex_file,
            res_presignedUrl = ''https://r2.example/'' @ ex_uid @ ''/'' @ ex_file,
            res_publicFileUrl = ''https://cdn.example/'' @ ex_uid @ ''/'' @ ex_file,
            res_imageId = ex_id, res_expiresAt = Some 301000\<rparr>]"
  have v: "presignRequestSchema ex_env [ex_single]" by code_simp
  have n: "env_NEXT_PUBLIC_MAX_IMAGE_SIZE_KB ex_env = None" by (simp add: ex_env_def)
  have ok: "json (fst (presign_POST ex_world ex_env (ex_presign [ex_single]) [])) = Ok ?results"
    by code_simp
  have k: "0 < length [ex_single]" by simp
  from presign_expiresAt_uses_300_seconds [OF ex_accepts v n ok k] ok
  show ?thesis by (simp add: ex_single_def)
qed

lemma distinct_prefixed:
  "distinct (map (\<lambda>img. uid @ ''/'' @ fileId img) images) \<longleftrightarrow> distinct (map fileId images)"
proof -
  have "map (\<lambda>img. uid @ ''/'' @ fileId img) images = map (\<lambda>s. uid @ ''/'' @ s) (map fileId images)"
    by simp
  moreover have "inj_on (\<lambda>s. uid @ ''/'' @ s) (set (map fileId images))"
    by (rule inj_onI) simp
  ultimately show ?thesis
    by (simp only: distinct_map) simp
qed

text \<open>
  Claim C7, as the code has it. The presign schema checks each \<open>fileId\<close> for the form of
  a UUID and compares no two items: a batch that repeats a valid item is valid. The
  storage keys of the created records are \<open>{ownerId}/{fileId}\<close> item by item, so they
  are pairwise distinct exactly when the \<open>fileId\<close>s of the batch are.
\<close>

theorem presign_keys_follow_fileIds:
  assumes "auth_userId (authCheck e (authorization req)) = Some uid" and "uid \<noteq> []"
    and "body req = Typed images" and "presignRequestSchema e images"
    and "http_status (fst (presign_POST w e req db)) = 200"
  shows "(\<exists>rows. snd (presign_POST w e req db) = db @ rows
            \<and> map objectKey rows = map (\<lambda>img. uid @ ''/'' @ fileId img) images
            \<and> (distinct (map objectKey rows) \<longleftrightarrow> distinct (map fileId images)))
       \<and> (\<forall>x. singleImageSchema e x \<and> \<not> too_big 2 (MAX_IMAGES e)
             \<longrightarrow> presignRequestSchema e [x, x])"
proof -
  from presign_POST_outcome [OF assms(1-4), of w db] assms(5)
  obtain rows where "snd (presign_POST w e req db) = db @ rows"
    and "map objectKey rows = map (\<lambda>img. uid @ ''/'' @ fileId img) images"
    by auto
  moreover from this(2)
  have "distinct (map objectKey rows) \<longleftrightarrow> distinct (map fileId images)"
    by (simp only: distinct_prefixed)
  moreover have "presignRequestSchema e [x, x]"
    if "singleImageSchema e x \<and> \<not> too_big 2 (MAX_IMAGES e)" for x
    using that by (simp add: presignRequestSchema_def)
  ultimately show ?thesis by blast
qed

theorem presign_keys_follow_fileIds_witness:
  "presignRequestSchema ex_env [ex_single, ex_single]
   \<and> (\<exists>rows. snd (presign_POST ex_world ex_env (ex_presign [ex_single, ex_single]) []) = [] @ rows
         \<and> \<not> distinct (map objectKey rows))"
proof -
  have v: "presignRequestSchema ex_env [ex_single, ex_single]" by code_simp
  have s: "http_status (fst (presign_POST ex_world ex_env (ex_presign [ex_single, ex_single]) []))
      = 200"
    by code_simp
  from presign_keys_follow_fileIds [OF ex_accepts v s] v
  show ?thesis by simp
qed

text \<open>
  Claim C7 as stated fails: a batch of two items with the same \<open>fileId\<close> passes the
  schema, and the two records created share one storage key.
\<close>

theorem presign_duplicate_fileId_counterexample:
  "presignRequestSchema ex_env [ex_single, ex_single]
   \<and> map objectKey (snd (presign_POST ex_world ex_env (ex_presign [ex_single, ex_single]) []))
       = [ex_uid @ ''/'' @ ex_file, ex_uid @ ''/'' @ ex_file]"
  by code_simp

end
